theory Spec2Isabelle
  imports Complex_Main "HOL-Library.Word" "HOL-Library.AList"
begin

unbundle bit_operations_syntax

section \<open>Stream parser (agents/docker-cc/stream-parser.ts)\<close>

text \<open>
  The fields of class \<open>StreamParser\<close>. A JavaScript string is a sequence of code units; the
  parser only ever compares a code unit with the two braces, so \<open>string\<close> is used for it.
\<close>

record StreamParser =
  buffer :: string
  inJson :: bool
  braceCount :: int
  scanPosition :: nat

definition new_StreamParser :: StreamParser where
  "new_StreamParser = \<lparr>buffer = [], inJson = False, braceCount = 0, scanPosition = 0\<rparr>"

text \<open>\<open>String.prototype.indexOf\<close> for a single code unit: \<open>None\<close> stands for \<open>-1\<close>.\<close>

fun indexOf :: "string \<Rightarrow> char \<Rightarrow> nat option" where
  "indexOf [] c = None"
| "indexOf (x # xs) c =
     (if x = c then Some 0 else (case indexOf xs c of None \<Rightarrow> None | Some i \<Rightarrow> Some (Suc i)))"

text \<open>
  The inner \<open>for\<close> loop of \<open>feed\<close>, started at index \<open>i\<close> with brace count \<open>bc\<close>. It
  returns \<open>(Some i, 0)\<close> when the brace at index \<open>i\<close> brings the count to zero (the
  \<open>break\<close> with \<open>foundComplete\<close>), and \<open>(None, bc')\<close> with the count reached when the buffer
  is exhausted.
\<close>

function scan :: "string \<Rightarrow> nat \<Rightarrow> int \<Rightarrow> nat option \<times> int" where
  "scan buf i bc =
     (if i < length buf then
        (if buf ! i = CHR ''{'' then scan buf (i + 1) (bc + 1)
         else if buf ! i = CHR ''}'' then
           (if bc - 1 = 0 then (Some i, bc - 1) else scan buf (i + 1) (bc - 1))
         else scan buf (i + 1) bc)
      else (None, bc))"
  by pat_completeness auto
termination
  by (relation "measure (\<lambda>(buf, i, bc). length buf - i)") auto

declare scan.simps [simp del]

text \<open>
  The first half of the body of the \<open>while\<close> loop: when not inside an object, look for an
  opening brace. \<open>None\<close> is the \<open>break\<close> taken when there is none (the buffer has then
  been cleared, which the caller does).
\<close>

definition seekOpen :: "StreamParser \<Rightarrow> StreamParser option" where
  "seekOpen p =
     (if \<not> inJson p then
        (case indexOf (buffer p) CHR ''{'' of
           None \<Rightarrow> None
         | Some idx \<Rightarrow>
             Some (p\<lparr>buffer := drop idx (buffer p), inJson := True, braceCount := 0,
                     scanPosition := 0\<rparr>))
      else Some p)"

text \<open>
  The \<open>while (this.buffer.length > 0)\<close> loop of \<open>feed\<close>. \<open>parse\<close> stands for
  \<open>JSON.parse\<close>, with \<open>None\<close> for a thrown SyntaxError, which \<open>feed\<close> catches and skips.
\<close>

function feed_loop ::
  "(string \<Rightarrow> 'm option) \<Rightarrow> StreamParser \<Rightarrow> 'm list \<Rightarrow> StreamParser \<times> 'm list" where
  "feed_loop parse p results =
     (if length (buffer p) > 0 then
        (case seekOpen p of
           None \<Rightarrow> (p\<lparr>buffer := [], scanPosition := 0\<rparr>, results)
         | Some p1 \<Rightarrow>
             (case scan (buffer p1) (scanPosition p1) (braceCount p1) of
                (Some i, bc) \<Rightarrow>
                  feed_loop parse
                    (p1\<lparr>buffer := drop (i + 1) (buffer p1), inJson := False, braceCount := bc,
                        scanPosition := 0\<rparr>)
                    (case parse (take (i + 1) (buffer p1)) of
                       Some obj \<Rightarrow> results @ [obj]
                     | None \<Rightarrow> results)
              | (None, bc) \<Rightarrow>
                  (p1\<lparr>braceCount := bc, scanPosition := length (buffer p1)\<rparr>, results)))
      else (p, results))"
  by pat_completeness auto
termination
proof (relation "measure (\<lambda>(parse, p, results). length (buffer p))")
  show "wf (measure (\<lambda>(parse, p, results). length (buffer p)))" by simp
next
  fix parse :: "string \<Rightarrow> 'm option" and p p1 :: StreamParser and results :: "'m list"
    and x :: "nat option \<times> int" and io :: "nat option" and bc :: int and i :: nat
  assume nonempty: "0 < length (buffer p)" and seek: "seekOpen p = Some p1"
  have "length (buffer p1) \<le> length (buffer p)"
    using seek by (auto simp: seekOpen_def split: if_splits option.splits)
  moreover have "buffer p \<noteq> []"
    using nonempty by simp
  ultimately have "length (drop (i + 1) (buffer p1)) < length (buffer p)"
    by (cases "buffer p") auto
  then show "((parse,
        p1\<lparr>buffer := drop (i + 1) (buffer p1), inJson := False, braceCount := bc,
            scanPosition := 0\<rparr>,
        case parse (take (i + 1) (buffer p1)) of None \<Rightarrow> results | Some obj \<Rightarrow> results @ [obj]),
       parse, p, results)
      \<in> measure (\<lambda>(parse, p, results). length (buffer p))"
    by simp
qed

declare feed_loop.simps [simp del]

definition feed ::
  "(string \<Rightarrow> 'm option) \<Rightarrow> StreamParser \<Rightarrow> string \<Rightarrow> StreamParser \<times> 'm list" where
  "feed parse p data = feed_loop parse (p\<lparr>buffer := buffer p @ data\<rparr>) []"

definition hasPending :: "StreamParser \<Rightarrow> bool" where
  "hasPending p = (length (buffer p) > 0)"

text \<open>
  \<open>parseStream\<close>: one parser is fed the chunks in turn and the messages of every call are
  yielded in order. The result is the parser after the last chunk and everything yielded.
\<close>

fun parseStream ::
  "(string \<Rightarrow> 'm option) \<Rightarrow> StreamParser \<Rightarrow> string list \<Rightarrow> StreamParser \<times> 'm list" where
  "parseStream parse p [] = (p, [])"
| "parseStream parse p (chunk # chunks) =
     (case feed parse p chunk of
        (p1, messages) \<Rightarrow>
          (case parseStream parse p1 chunks of (p2, rest) \<Rightarrow> (p2, messages @ rest)))"

subsection \<open>The parser read one code unit at a time\<close>

text \<open>
  A second reading of the same parser, used in the proofs only: \<open>parserStep\<close> is what one more
  code unit does to a parser that has scanned everything it holds, and \<open>parserRun\<close> folds it
  over a string. \<open>feed\<close> is proved equal to \<open>parserRun\<close> on such parsers below.
\<close>

fun parserStep :: "(string \<Rightarrow> 'm option) \<Rightarrow> StreamParser \<Rightarrow> char \<Rightarrow> StreamParser \<times> 'm list" where
  "parserStep parse p c =
     (if inJson p then
        (if c = CHR ''{'' then
           (p\<lparr>buffer := buffer p @ [c], braceCount := braceCount p + 1,
               scanPosition := Suc (length (buffer p))\<rparr>, [])
         else if c = CHR ''}'' then
           (if braceCount p - 1 = 0 then
              (new_StreamParser,
               case parse (buffer p @ [c]) of Some obj \<Rightarrow> [obj] | None \<Rightarrow> [])
            else
              (p\<lparr>buffer := buffer p @ [c], braceCount := braceCount p - 1,
                  scanPosition := Suc (length (buffer p))\<rparr>, []))
         else (p\<lparr>buffer := buffer p @ [c], scanPosition := Suc (length (buffer p))\<rparr>, []))
      else if c = CHR ''{'' then
        (\<lparr>buffer = [c], inJson = True, braceCount = 1, scanPosition = 1\<rparr>, [])
      else (p, []))"

fun parserRun :: "(string \<Rightarrow> 'm option) \<Rightarrow> StreamParser \<Rightarrow> string \<Rightarrow> StreamParser \<times> 'm list" where
  "parserRun parse p [] = (p, [])"
| "parserRun parse p (c # cs) =
     (case parserStep parse p c of
        (p1, out) \<Rightarrow> (case parserRun parse p1 cs of (p2, rest) \<Rightarrow> (p2, out @ rest)))"

definition canonical :: "StreamParser \<Rightarrow> bool" where
  "canonical p =
     (if inJson p then scanPosition p = length (buffer p) else p = new_StreamParser)"

definition inside :: "string \<Rightarrow> int \<Rightarrow> StreamParser" where
  "inside buf bc = \<lparr>buffer = buf, inJson = True, braceCount = bc, scanPosition = length buf\<rparr>"

definition emit :: "(string \<Rightarrow> 'm option) \<Rightarrow> string \<Rightarrow> 'm list" where
  "emit parse s = (case parse s of Some obj \<Rightarrow> [obj] | None \<Rightarrow> [])"

subsection \<open>Records and noise in a stream\<close>

text \<open>
  What the parser's brace counter takes for one record: a string that opens with a brace,
  whose braces balance, and none of whose proper prefixes balances (so the brace that
  closes it is its last code unit). Braces inside string literals count like any other.
\<close>

definition braceDepth :: "string \<Rightarrow> int" where
  "braceDepth s = int (count_list s CHR ''{'') - int (count_list s CHR ''}'')"

definition isRecord :: "string \<Rightarrow> bool" where
  "isRecord r =
     (r \<noteq> [] \<and> hd r = CHR ''{'' \<and> braceDepth r = 0 \<and>
      list_all (\<lambda>k. 0 < braceDepth (take k r)) [1..<length r])"

text \<open>Noise the parser skips between records: anything without an opening brace.\<close>

definition isNoise :: "string \<Rightarrow> bool" where
  "isNoise s = (CHR ''{'' \<notin> set s)"

text \<open>
  An input stream: leading noise, then the records in order, each followed by its own
  (possibly empty) noise.
\<close>

fun assemble :: "string \<Rightarrow> (string \<times> string) list \<Rightarrow> string" where
  "assemble lead [] = lead"
| "assemble lead ((r, gap) # rs) = lead @ r @ assemble gap rs"

section \<open>Container registry (agents/docker-cc/registry.ts, types.ts)\<close>

datatype ContainerStatus = Creating | Starting | Idle | Running | Stopping | Stopped | Failed

text \<open>
  \<open>ContainerRegistryEntry\<close>. An optional field (\<open>agentId?\<close>, \<open>claudeSessionId?\<close>) and the
  nullable \<open>sessionKey\<close> are options: \<open>None\<close> is \<open>undefined\<close>, respectively \<open>null\<close>.
\<close>

record ContainerRegistryEntry =
  containerId :: string
  containerName :: string
  sessionKey :: "string option"
  agentId :: "string option"
  status :: ContainerStatus
  createdAt :: int
  lastHeartbeat :: int
  claudeSessionId :: "string option"
  turnCount :: int
  configHash :: string

record RegistryData =
  version :: int
  entries :: "ContainerRegistryEntry list"

definition REGISTRY_VERSION :: int where
  "REGISTRY_VERSION = 1"

text \<open>
  The registry file on disk: absent (\<open>readFile\<close> fails with ENOENT), unreadable (any other
  failure of \<open>readFile\<close> or of \<open>JSON.parse\<close>), or holding a document. A disk that is not
  \<open>writable\<close> makes \<open>writeFile\<close> fail.
\<close>

datatype RegistryFile = Missing | Unreadable | Stored RegistryData

record Disk =
  registryFile :: RegistryFile
  writable :: bool

datatype error =
    ReadFailed
  | WriteFailed
  | NotConnected
  | DockerUnavailable
  | MaxPerAgentReached
  | MaxTotalReached
  | DockerFailed
  | CallbackFailed

definition readRegistry :: "Disk \<Rightarrow> error + RegistryData" where
  "readRegistry disk =
     (case registryFile disk of
        Missing \<Rightarrow> Inr \<lparr>version = REGISTRY_VERSION, entries = []\<rparr>
      | Unreadable \<Rightarrow> Inl ReadFailed
      | Stored data \<Rightarrow>
          (if version data \<noteq> REGISTRY_VERSION
           then Inr \<lparr>version = REGISTRY_VERSION, entries = []\<rparr>
           else Inr data))"

definition writeRegistry :: "Disk \<Rightarrow> RegistryData \<Rightarrow> error + Disk" where
  "writeRegistry disk data =
     (if writable disk then Inr (disk\<lparr>registryFile := Stored data\<rparr>) else Inl WriteFailed)"

text \<open>
  \<open>entries.find(p)\<close> returns the first entry that satisfies \<open>p\<close>, and the assignments to
  its fields change that element of the array in place: \<open>mutateFirst p f\<close> is the array
  afterwards.
\<close>

fun mutateFirst :: "('a \<Rightarrow> bool) \<Rightarrow> ('a \<Rightarrow> 'a) \<Rightarrow> 'a list \<Rightarrow> 'a list" where
  "mutateFirst p f [] = []"
| "mutateFirst p f (x # xs) = (if p x then f x # xs else x # mutateFirst p f xs)"

text \<open>\<open>updateContainerEntry\<close>: replace the entry of that name, or push a new one.\<close>

definition updateContainerEntry :: "Disk \<Rightarrow> ContainerRegistryEntry \<Rightarrow> error + Disk" where
  "updateContainerEntry disk entry =
     (case readRegistry disk of
        Inl e \<Rightarrow> Inl e
      | Inr registry \<Rightarrow>
          (case find (\<lambda>e. containerName e = containerName entry) (entries registry) of
             Some _ \<Rightarrow>
               writeRegistry disk
                 (registry\<lparr>entries :=
                    mutateFirst (\<lambda>e. containerName e = containerName entry) (\<lambda>_. entry)
                      (entries registry)\<rparr>)
           | None \<Rightarrow> writeRegistry disk (registry\<lparr>entries := entries registry @ [entry]\<rparr>)))"

definition removeContainerEntry :: "Disk \<Rightarrow> string \<Rightarrow> error + Disk" where
  "removeContainerEntry disk name =
     (case readRegistry disk of
        Inl e \<Rightarrow> Inl e
      | Inr registry \<Rightarrow>
          writeRegistry disk
            (registry\<lparr>entries := filter (\<lambda>e. containerName e \<noteq> name) (entries registry)\<rparr>))"

definition getContainerEntry :: "Disk \<Rightarrow> string \<Rightarrow> error + ContainerRegistryEntry option" where
  "getContainerEntry disk name =
     (case readRegistry disk of
        Inl e \<Rightarrow> Inl e
      | Inr registry \<Rightarrow> Inr (find (\<lambda>e. containerName e = name) (entries registry)))"

definition getContainerBySessionKey ::
  "Disk \<Rightarrow> string \<Rightarrow> error + ContainerRegistryEntry option" where
  "getContainerBySessionKey disk key =
     (case readRegistry disk of
        Inl e \<Rightarrow> Inl e
      | Inr registry \<Rightarrow> Inr (find (\<lambda>e. sessionKey e = Some key) (entries registry)))"

definition listContainerEntries :: "Disk \<Rightarrow> error + ContainerRegistryEntry list" where
  "listContainerEntries disk =
     (case readRegistry disk of Inl e \<Rightarrow> Inl e | Inr registry \<Rightarrow> Inr (entries registry))"

definition listContainersByAgent :: "Disk \<Rightarrow> string \<Rightarrow> error + ContainerRegistryEntry list" where
  "listContainersByAgent disk agent =
     (case readRegistry disk of
        Inl e \<Rightarrow> Inl e
      | Inr registry \<Rightarrow> Inr (filter (\<lambda>e. agentId e = Some agent) (entries registry)))"

definition listWarmContainers :: "Disk \<Rightarrow> error + ContainerRegistryEntry list" where
  "listWarmContainers disk =
     (case readRegistry disk of
        Inl e \<Rightarrow> Inl e
      | Inr registry \<Rightarrow>
          Inr (filter (\<lambda>e. sessionKey e = None \<and> status e = Idle) (entries registry)))"

text \<open>The name-keyed mutations. \<open>now\<close> is the value of \<open>Date.now()\<close>.\<close>

definition updateContainerStatus ::
  "Disk \<Rightarrow> string \<Rightarrow> ContainerStatus \<Rightarrow> int \<Rightarrow> error + Disk" where
  "updateContainerStatus disk name st now =
     (case readRegistry disk of
        Inl e \<Rightarrow> Inl e
      | Inr registry \<Rightarrow>
          (case find (\<lambda>e. containerName e = name) (entries registry) of
             Some _ \<Rightarrow>
               writeRegistry disk
                 (registry\<lparr>entries :=
                    mutateFirst (\<lambda>e. containerName e = name)
                      (\<lambda>entry. entry\<lparr>status := st, lastHeartbeat := now\<rparr>)
                      (entries registry)\<rparr>)
           | None \<Rightarrow> Inr disk))"

definition updateContainerHeartbeat ::
  "Disk \<Rightarrow> string \<Rightarrow> string option \<Rightarrow> int option \<Rightarrow> int \<Rightarrow> error + Disk" where
  "updateContainerHeartbeat disk name claudeSession turns now =
     (case readRegistry disk of
        Inl e \<Rightarrow> Inl e
      | Inr registry \<Rightarrow>
          (case find (\<lambda>e. containerName e = name) (entries registry) of
             Some _ \<Rightarrow>
               writeRegistry disk
                 (registry\<lparr>entries :=
                    mutateFirst (\<lambda>e. containerName e = name)
                      (\<lambda>entry.
                         (let e1 = entry\<lparr>lastHeartbeat := now\<rparr>;
                              e2 = (case claudeSession of
                                      Some s \<Rightarrow> e1\<lparr>claudeSessionId := Some s\<rparr>
                                    | None \<Rightarrow> e1)
                          in (case turns of Some t \<Rightarrow> e2\<lparr>turnCount := t\<rparr> | None \<Rightarrow> e2)))
                      (entries registry)\<rparr>)
           | None \<Rightarrow> Inr disk))"

definition assignContainerToSession ::
  "Disk \<Rightarrow> string \<Rightarrow> string \<Rightarrow> string option \<Rightarrow> int \<Rightarrow> error + Disk" where
  "assignContainerToSession disk name key agent now =
     (case readRegistry disk of
        Inl e \<Rightarrow> Inl e
      | Inr registry \<Rightarrow>
          (case find (\<lambda>e. containerName e = name) (entries registry) of
             Some _ \<Rightarrow>
               writeRegistry disk
                 (registry\<lparr>entries :=
                    mutateFirst (\<lambda>e. containerName e = name)
                      (\<lambda>entry. entry\<lparr>sessionKey := Some key, agentId := agent,
                                       lastHeartbeat := now\<rparr>)
                      (entries registry)\<rparr>)
           | None \<Rightarrow> Inr disk))"

definition unassignContainer :: "Disk \<Rightarrow> string \<Rightarrow> int \<Rightarrow> error + Disk" where
  "unassignContainer disk name now =
     (case readRegistry disk of
        Inl e \<Rightarrow> Inl e
      | Inr registry \<Rightarrow>
          (case find (\<lambda>e. containerName e = name) (entries registry) of
             Some _ \<Rightarrow>
               writeRegistry disk
                 (registry\<lparr>entries :=
                    mutateFirst (\<lambda>e. containerName e = name)
                      (\<lambda>entry. entry\<lparr>sessionKey := None, agentId := None,
                                       claudeSessionId := None, turnCount := 0, status := Idle,
                                       lastHeartbeat := now\<rparr>)
                      (entries registry)\<rparr>)
           | None \<Rightarrow> Inr disk))"

definition getIdleContainers :: "Disk \<Rightarrow> int \<Rightarrow> int \<Rightarrow> error + ContainerRegistryEntry list" where
  "getIdleContainers disk idleTimeoutMs now =
     (case readRegistry disk of
        Inl e \<Rightarrow> Inl e
      | Inr registry \<Rightarrow>
          Inr (filter (\<lambda>e. status e = Idle \<and> now - lastHeartbeat e > idleTimeoutMs)
                 (entries registry)))"

definition getExpiredContainers ::
  "Disk \<Rightarrow> int \<Rightarrow> int \<Rightarrow> error + ContainerRegistryEntry list" where
  "getExpiredContainers disk maxAgeMs now =
     (case readRegistry disk of
        Inl e \<Rightarrow> Inl e
      | Inr registry \<Rightarrow> Inr (filter (\<lambda>e. now - createdAt e > maxAgeMs) (entries registry)))"

definition getStaleContainers ::
  "Disk \<Rightarrow> int \<Rightarrow> int \<Rightarrow> error + ContainerRegistryEntry list" where
  "getStaleContainers disk staleThresholdMs now =
     (case readRegistry disk of
        Inl e \<Rightarrow> Inl e
      | Inr registry \<Rightarrow>
          Inr (filter (\<lambda>e. (status e = Running \<or> status e = Idle) \<and>
                            now - lastHeartbeat e > staleThresholdMs)
                 (entries registry)))"

text \<open>
  \<open>syncWithDocker\<close>: drop the entries whose container Docker no longer has; the file is
  rewritten only when something was dropped. The result also carries the removed names.
\<close>

definition syncWithDocker :: "Disk \<Rightarrow> string set \<Rightarrow> error + (Disk \<times> string list)" where
  "syncWithDocker disk existingContainerNames =
     (case readRegistry disk of
        Inl e \<Rightarrow> Inl e
      | Inr registry \<Rightarrow>
          (let kept = filter (\<lambda>e. containerName e \<in> existingContainerNames) (entries registry);
               removed = map containerName
                 (filter (\<lambda>e. containerName e \<notin> existingContainerNames) (entries registry))
           in if length removed > 0 then
                (case writeRegistry disk (registry\<lparr>entries := kept\<rparr>) of
                   Inl e \<Rightarrow> Inl e
                 | Inr disk' \<Rightarrow> Inr (disk', removed))
              else Inr (disk, removed)))"

text \<open>A registry of one entry, used to exercise the theorems on a concrete input.\<close>

definition exampleEntry :: ContainerRegistryEntry where
  "exampleEntry =
     \<lparr>containerId = ''4f2a90c1'', containerName = ''clawdbot-cc-s1-e5d'', sessionKey = None,
      agentId = None, status = Running, createdAt = 1000, lastHeartbeat = 2000,
      claudeSessionId = Some ''resume-1'', turnCount = 4, configHash = []\<rparr>"

definition exampleDisk :: Disk where
  "exampleDisk =
     \<lparr>registryFile = Stored \<lparr>version = 1, entries = [exampleEntry]\<rparr>, writable = True\<rparr>"

section \<open>Configuration (agents/docker-cc/config.ts, types.ts)\<close>

text \<open>
  \<open>DockerCCPoolConfig\<close>. The counts and the millisecond timeouts are integers, \<open>cpus\<close> is a
  fraction; an optional field is an option.
\<close>

record PoolSizing =
  minWarm :: int
  maxTotal :: int
  maxPerAgent :: int

record Resources =
  memory :: string
  cpus :: real
  pidsLimit :: int

record Timeouts =
  idleMs :: int
  maxAgeMs :: int
  healthIntervalMs :: int
  startupMs :: int

record RedisConfig =
  url :: "string option"
  keyPrefix :: string

record DockerConfig =
  containerPrefix :: string
  network :: string
  capDrop :: "string list"
  securityOpts :: "string list"
  binds :: "string list option"
  env :: "(string \<times> string) list option"

record DockerCCPoolConfig =
  enabled :: bool
  pool :: PoolSizing
  image :: string
  resources :: Resources
  timeouts :: Timeouts
  redis :: RedisConfig
  docker :: DockerConfig

definition DEFAULT_DOCKER_CC_CONFIG :: DockerCCPoolConfig where
  "DEFAULT_DOCKER_CC_CONFIG =
     \<lparr>enabled = False,
      pool = \<lparr>minWarm = 0, maxTotal = 10, maxPerAgent = 3\<rparr>,
      image = ''clawdbot/docker-cc:latest'',
      resources = \<lparr>memory = ''4g'', cpus = 2, pidsLimit = 256\<rparr>,
      timeouts = \<lparr>idleMs = 5 * 60 * 1000, maxAgeMs = 60 * 60 * 1000,
                  healthIntervalMs = 10 * 1000, startupMs = 30 * 1000\<rparr>,
      redis = \<lparr>url = None, keyPrefix = ''clawdbot:cc:''\<rparr>,
      docker = \<lparr>containerPrefix = ''clawdbot-cc-'', network = ''clawdbot-net'',
                capDrop = [''ALL''], securityOpts = [''no-new-privileges''],
                binds = None, env = None\<rparr>\<rparr>"

subsection \<open>Validation\<close>

record ValidationResult =
  valid :: bool
  errors :: "string list"

text \<open>
  \<open>validateDockerCCConfig\<close>: every failed check pushes its message, in the order of the
  source; the configuration is valid when no message was pushed.
\<close>

definition validateDockerCCConfig :: "DockerCCPoolConfig \<Rightarrow> ValidationResult" where
  "validateDockerCCConfig config =
     (let errors =
        (if minWarm (pool config) < 0 then [''pool.minWarm must be non-negative''] else []) @
        (if maxTotal (pool config) < 1 then [''pool.maxTotal must be at least 1''] else []) @
        (if minWarm (pool config) > maxTotal (pool config)
         then [''pool.minWarm cannot exceed pool.maxTotal''] else []) @
        (if maxPerAgent (pool config) < 1 then [''pool.maxPerAgent must be at least 1''] else []) @
        (if image config = [] then [''image is required''] else []) @
        (if cpus (resources config) < 0.1 then [''resources.cpus must be at least 0.1''] else []) @
        (if pidsLimit (resources config) < 10
         then [''resources.pidsLimit must be at least 10''] else []) @
        (if healthIntervalMs (timeouts config) < 1000
         then [''timeouts.healthIntervalMs must be at least 1000ms''] else []) @
        (if startupMs (timeouts config) < 5000
         then [''timeouts.startupMs must be at least 5000ms''] else [])
      in \<lparr>valid = (length errors = 0), errors = errors\<rparr>)"

subsection \<open>Container names\<close>

text \<open>
  A session key is a JavaScript string. The model takes its code units from \<open>char\<close>, that
  is the code units 0 to 255; of these \<open>toLowerCase\<close> maps only \<open>A\<close> to \<open>Z\<close> into
  \<open>[a-z0-9]\<close>, and every code unit outside \<open>[a-z0-9]\<close> is replaced in the next step, so
  leaving the others as they are does not change the result.
\<close>

definition toLowerCase :: "char \<Rightarrow> char" where
  "toLowerCase c =
     (if 65 \<le> (of_char c :: nat) \<and> (of_char c :: nat) \<le> 90
      then char_of ((of_char c :: nat) + 32) else c)"

text \<open>The character class \<open>[a-z0-9]\<close>.\<close>

definition isLowerAlnum :: "char \<Rightarrow> bool" where
  "isLowerAlnum c =
     ((97 \<le> (of_char c :: nat) \<and> (of_char c :: nat) \<le> 122) \<or>
      (48 \<le> (of_char c :: nat) \<and> (of_char c :: nat) \<le> 57))"

text \<open>\<open>.replace(/[^a-z0-9]/g, "-")\<close>\<close>

definition replaceNonAlnum :: "string \<Rightarrow> string" where
  "replaceNonAlnum s = map (\<lambda>c. if isLowerAlnum c then c else CHR ''-'') s"

text \<open>\<open>.replace(/-+/g, "-")\<close>\<close>

fun squeezeDashes :: "string \<Rightarrow> string" where
  "squeezeDashes [] = []"
| "squeezeDashes [c] = [c]"
| "squeezeDashes (c # d # cs) =
     (if c = CHR ''-'' \<and> d = CHR ''-'' then squeezeDashes (d # cs)
      else c # squeezeDashes (d # cs))"

text \<open>
  \<open>.replace(/^-|-$/g, "")\<close>: one dash at the start and one dash at the end are removed
  (a string that is a single dash becomes empty).
\<close>

definition stripEndDashes :: "string \<Rightarrow> string" where
  "stripEndDashes s =
     (let s1 = (case s of [] \<Rightarrow> [] | c # cs \<Rightarrow> if c = CHR ''-'' then cs else s)
      in if s1 \<noteq> [] \<and> last s1 = CHR ''-'' then butlast s1 else s1)"

text \<open>
  \<open>ToInt32\<close>, which the operators \<open><<\<close> and \<open>&\<close> apply to their operands and result:
  the value modulo \<open>2^32\<close>, read as two's complement.
\<close>

definition toInt32 :: "int \<Rightarrow> int" where
  "toInt32 x = (x + 2 ^ 31) mod 2 ^ 32 - 2 ^ 31"

text \<open>
  The loop of \<open>simpleHash\<close>, from left to right: \<open>hash = (hash << 5) - hash + char\<close>, then
  \<open>hash = hash & hash\<close>. The subtraction and the addition are exact (the operands are
  far below \<open>2^53\<close>).
\<close>

fun hashLoop :: "int \<Rightarrow> string \<Rightarrow> int" where
  "hashLoop hash [] = hash"
| "hashLoop hash (c # cs) = hashLoop (toInt32 (toInt32 (hash * 2 ^ 5) - hash + of_char c)) cs"

definition simpleHash :: "string \<Rightarrow> int" where
  "simpleHash str = \<bar>hashLoop 0 str\<bar>"

text \<open>\<open>Number.prototype.toString(16)\<close> on a non-negative integer.\<close>

definition hexDigit :: "nat \<Rightarrow> char" where
  "hexDigit d = ''0123456789abcdef'' ! d"

function toHex :: "nat \<Rightarrow> string" where
  "toHex n = (if n < 16 then [hexDigit n] else toHex (n div 16) @ [hexDigit (n mod 16)])"
  by pat_completeness auto
termination
  by (relation "measure id") auto

declare toHex.simps [simp del]

definition slugifySessionKey :: "string \<Rightarrow> string" where
  "slugifySessionKey key =
     (let slug = take 32 (stripEndDashes (squeezeDashes (replaceNonAlnum (map toLowerCase key))));
          hash = take 8 (toHex (nat (simpleHash key)))
      in slug @ ''-'' @ hash)"

definition generateContainerName :: "string \<Rightarrow> DockerCCPoolConfig \<Rightarrow> string" where
  "generateContainerName key config = containerPrefix (docker config) @ slugifySessionKey key"

subsection \<open>The derived name, as the specification words it\<close>

text \<open>
  The slug read off the sentence: the key lowercased, every maximal run of non-alphanumeric
  characters replaced by a single dash, all leading and trailing dashes stripped, the result
  truncated to 32 characters. \<open>dashRuns b\<close> is told in \<open>b\<close> whether the previous character
  belonged to a run.
\<close>

fun dashRuns :: "bool \<Rightarrow> string \<Rightarrow> string" where
  "dashRuns b [] = []"
| "dashRuns b (c # cs) =
     (if isLowerAlnum c then c # dashRuns False cs
      else if b then dashRuns True cs else CHR ''-'' # dashRuns True cs)"

definition stripDashes :: "string \<Rightarrow> string" where
  "stripDashes s =
     rev (dropWhile (\<lambda>c. c = CHR ''-'') (rev (dropWhile (\<lambda>c. c = CHR ''-'') s)))"

definition slugOf :: "string \<Rightarrow> string" where
  "slugOf key = take 32 (stripDashes (dashRuns False (map toLowerCase key)))"

definition isHexDigit :: "char \<Rightarrow> bool" where
  "isHexDigit c = (c \<in> set ''0123456789abcdef'')"

text \<open>No two dashes in a row: what \<open>squeezeDashes\<close> leaves.\<close>

fun noDoubleDash :: "string \<Rightarrow> bool" where
  "noDoubleDash [] = True"
| "noDoubleDash [c] = True"
| "noDoubleDash (c # d # cs) = (\<not> (c = CHR ''-'' \<and> d = CHR ''-'') \<and> noDoubleDash (d # cs))"

section \<open>Health monitor (agents/docker-cc/health.ts)\<close>

text \<open>
  \<open>ContainerHealthStatus\<close>, the session's state record as \<open>getSessionState\<close> returns it.
  Its fields carry the prefix \<open>state_\<close> here, the registry entry having fields of the same
  names. \<open>state_lastHeartbeat\<close> is an ISO timestamp; it is \<open>undefined\<close> (\<open>None\<close>) when
  the Redis hash has neither \<open>last_heartbeat\<close> nor \<open>lastHeartbeat\<close>.
\<close>

record ContainerHealthStatus =
  sessionId :: string
  state_status :: ContainerStatus
  state_lastHeartbeat :: "string option"
  state_claudeSessionId :: "string option"
  state_turnCount :: int

text \<open>A JavaScript number that may be \<open>NaN\<close> (the time of an invalid \<open>Date\<close>).\<close>

datatype jsnumber = Num int | NaN

record ContainerHealthCheckResult =
  healthy :: bool
  statusRecord :: "ContainerHealthStatus option"
  lastHeartbeatAgeMs :: "jsnumber option"
  isStale :: bool

text \<open>
  \<open>checkContainer\<close>. \<open>redisClient\<close> is \<open>None\<close> while no client has been set; otherwise it
  is the client's \<open>getSessionState\<close>, which throws or returns the state record or \<open>null\<close>.
  \<open>parseDate ts\<close> is \<open>new Date(ts).getTime()\<close>, with \<open>None\<close> for an invalid date, and
  \<open>now\<close> is \<open>Date.now()\<close>. An empty timestamp is falsy, like a missing one. Every
  comparison with \<open>NaN\<close> is false.
\<close>

definition checkContainer ::
  "DockerCCPoolConfig \<Rightarrow> (string \<Rightarrow> error + ContainerHealthStatus option) option \<Rightarrow>
   (string \<Rightarrow> int option) \<Rightarrow> int \<Rightarrow> string \<Rightarrow> error + ContainerHealthCheckResult" where
  "checkContainer config redisClient parseDate now key =
     (case redisClient of
        None \<Rightarrow>
          Inr \<lparr>healthy = False, statusRecord = None, lastHeartbeatAgeMs = None, isStale = True\<rparr>
      | Some getSessionState \<Rightarrow>
          (case getSessionState key of
             Inl e \<Rightarrow> Inl e
           | Inr None \<Rightarrow>
               Inr \<lparr>healthy = False, statusRecord = None, lastHeartbeatAgeMs = None,
                    isStale = True\<rparr>
           | Inr (Some st) \<Rightarrow>
               (let age =
                      (case state_lastHeartbeat st of
                         None \<Rightarrow> None
                       | Some ts \<Rightarrow>
                           if ts = [] then None
                           else (case parseDate ts of
                                   None \<Rightarrow> Some NaN
                                 | Some t \<Rightarrow> Some (Num (now - t))));
                    staleThreshold = healthIntervalMs (timeouts config) * 3;
                    stale =
                      (case age of
                         None \<Rightarrow> False
                       | Some NaN \<Rightarrow> False
                       | Some (Num a) \<Rightarrow> a > staleThreshold);
                    ok = ((state_status st = Idle \<or> state_status st = Running) \<and> \<not> stale)
                in Inr \<lparr>healthy = ok, statusRecord = Some st, lastHeartbeatAgeMs = age,
                        isStale = stale\<rparr>)))"

text \<open>The exported helpers \<open>parseHeartbeatAge\<close> and \<open>isHeartbeatStale\<close>.\<close>

definition parseHeartbeatAge ::
  "(string \<Rightarrow> int option) \<Rightarrow> int \<Rightarrow> string option \<Rightarrow> jsnumber option" where
  "parseHeartbeatAge parseDate now timestamp =
     (case timestamp of
        None \<Rightarrow> None
      | Some ts \<Rightarrow>
          if ts = [] then None
          else (case parseDate ts of None \<Rightarrow> Some NaN | Some t \<Rightarrow> Some (Num (now - t))))"

definition isHeartbeatStale ::
  "(string \<Rightarrow> int option) \<Rightarrow> int \<Rightarrow> string option \<Rightarrow> int \<Rightarrow> bool" where
  "isHeartbeatStale parseDate now timestamp thresholdMs =
     (case parseHeartbeatAge parseDate now timestamp of
        None \<Rightarrow> True
      | Some NaN \<Rightarrow> False
      | Some (Num age) \<Rightarrow> age > thresholdMs)"

text \<open>A state record and a clock reading to exercise the theorems.\<close>

definition exampleState :: ContainerHealthStatus where
  "exampleState =
     \<lparr>sessionId = ''s1'', state_status = Running,
      state_lastHeartbeat = Some ''1970-01-01T00:00:05.000Z'', state_claudeSessionId = None,
      state_turnCount = 1\<rparr>"

definition exampleParseDate :: "string \<Rightarrow> int option" where
  "exampleParseDate ts = (if ts = ''1970-01-01T00:00:05.000Z'' then Some 5000 else None)"

section \<open>Waiting for a result and running a prompt (redis-client.ts, runner.ts)\<close>

record Usage =
  input_tokens :: int
  output_tokens :: int

text \<open>
  \<open>ResultData\<close>, the parsed value of the session's result key. It is the output of
  \<open>JSON.parse\<close>, so any field may be missing, which \<open>run\<close> allows for with \<open>??\<close>; the
  fields carry the prefix \<open>data_\<close>, \<open>ClaudeRunResult\<close> having fields of the same names.
\<close>

record ResultData =
  data_subtype :: "string option"
  data_result :: "string option"
  data_usage :: "Usage option"
  data_duration_ms :: "int option"

record ClaudeRunResult =
  result :: "string option"
  usage :: Usage
  duration_ms :: int
  exit_code :: int
  run_claudeSessionId :: "string option"

record ContainerAssignment =
  assignedName :: string
  assignedId :: string
  isNew :: bool
  wasWarm :: bool

text \<open>
  What \<open>waitForResult\<close> meets in the \<open>k\<close>-th round of its loop: the reading of
  \<open>Date.now()\<close> in the loop condition, the answer of \<open>getSessionResult\<close>, the answer of
  \<open>getSessionState\<close>, and the answer of the second \<open>getSessionResult\<close> made once the
  state is terminal. \<open>startTime\<close> is the reading taken before the loop.
\<close>

record PollEnv =
  startTime :: int
  clockAt :: "nat \<Rightarrow> int"
  resultAt :: "nat \<Rightarrow> error + ResultData option"
  stateAt :: "nat \<Rightarrow> error + ContainerHealthStatus option"
  finalResultAt :: "nat \<Rightarrow> error + ResultData option"

definition isTerminal :: "ContainerHealthStatus option \<Rightarrow> bool" where
  "isTerminal state =
     (case state of
        None \<Rightarrow> False
      | Some st \<Rightarrow> state_status st = Stopped \<or> state_status st = Failed)"

text \<open>
  The loop of \<open>waitForResult\<close>, from round \<open>k\<close> on. Nothing in the code bounds the number
  of rounds (a clock that stands still keeps it polling), so the result is an option:
  \<open>None\<close> is a loop that never returns, \<open>Some (Inl e)\<close> a thrown error, \<open>Some (Inr r)\<close>
  the value returned, with \<open>r = None\<close> for \<open>null\<close>.
\<close>

partial_function (option) waitLoop ::
  "PollEnv \<Rightarrow> int \<Rightarrow> nat \<Rightarrow> (error + ResultData option) option" where
  "waitLoop poll timeoutMs k =
     (if clockAt poll k - startTime poll < timeoutMs then
        (case resultAt poll k of
           Inl e \<Rightarrow> Some (Inl e)
         | Inr (Some r) \<Rightarrow> Some (Inr (Some r))
         | Inr None \<Rightarrow>
             (case stateAt poll k of
                Inl e \<Rightarrow> Some (Inl e)
              | Inr state \<Rightarrow>
                  if isTerminal state then Some (finalResultAt poll k)
                  else waitLoop poll timeoutMs (Suc k)))
      else Some (Inr None))"

definition waitForResult :: "PollEnv \<Rightarrow> int \<Rightarrow> (error + ResultData option) option" where
  "waitForResult poll timeoutMs = waitLoop poll timeoutMs 0"

definition DEFAULT_RUN_TIMEOUT_MS :: int where
  "DEFAULT_RUN_TIMEOUT_MS = 10 * 60 * 1000"

text \<open>
  What the calls made by \<open>run\<close> answer, in the order it makes them. An \<open>error option\<close> is
  \<open>Some e\<close> when the call throws. \<open>getContainer\<close> is modelled with the pool manager; here
  only its outcome matters.
\<close>

record RunEnv =
  initializeOutcome :: "error option"
  getContainerOutcome :: "error + ContainerAssignment"
  subscribeOutcome :: "error option"
  sendInputOutcome :: "error option"
  polls :: PollEnv
  stateAfter :: "error + ContainerHealthStatus option"
  onResultOutcome :: "error option"
  unsubscribeOutcome :: "error option"

record RunOptions =
  timeoutMs :: "int option"
  hasOnOutput :: bool
  hasOnResult :: bool

text \<open>The \<open>try\<close> block of \<open>run\<close>.\<close>

definition runBody :: "RunEnv \<Rightarrow> RunOptions \<Rightarrow> (error + ClaudeRunResult) option" where
  "runBody world options =
     (case sendInputOutcome world of
        Some e \<Rightarrow> Some (Inl e)
      | None \<Rightarrow>
          (case waitForResult (polls world)
                  (case timeoutMs options of None \<Rightarrow> DEFAULT_RUN_TIMEOUT_MS | Some t \<Rightarrow> t) of
             None \<Rightarrow> None
           | Some (Inl e) \<Rightarrow> Some (Inl e)
           | Some (Inr resultData) \<Rightarrow>
               (let r = \<lparr>result = (case resultData of None \<Rightarrow> None | Some d \<Rightarrow> data_result d),
                         usage = (case (case resultData of None \<Rightarrow> None | Some d \<Rightarrow> data_usage d) of
                                    None \<Rightarrow> \<lparr>input_tokens = 0, output_tokens = 0\<rparr>
                                  | Some u \<Rightarrow> u),
                         duration_ms =
                           (case (case resultData of None \<Rightarrow> None | Some d \<Rightarrow> data_duration_ms d) of
                              None \<Rightarrow> 0
                            | Some ms \<Rightarrow> ms),
                         exit_code =
                           (if (case resultData of None \<Rightarrow> None | Some d \<Rightarrow> data_subtype d) =
                               Some ''error''
                            then 1 else 0),
                         run_claudeSessionId = None\<rparr>
                in (case stateAfter world of
                      Inl e \<Rightarrow> Some (Inl e)
                    | Inr state \<Rightarrow>
                        (let r' =
                               (case (case state of None \<Rightarrow> None | Some st \<Rightarrow> state_claudeSessionId st) of
                                  None \<Rightarrow> r
                                | Some sid \<Rightarrow>
                                    if sid = [] then r else r\<lparr>run_claudeSessionId := Some sid\<rparr>)
                         in if hasOnResult options then
                              (case onResultOutcome world of
                                 Some e \<Rightarrow> Some (Inl e)
                               | None \<Rightarrow> Some (Inr r'))
                            else Some (Inr r'))))))"

text \<open>
  \<open>run\<close>: initialise if needed, obtain the container, subscribe when an output callback
  was given, then the \<open>try\<close> block; the \<open>finally\<close> block unsubscribes, and an error it
  throws replaces the outcome of the \<open>try\<close> block.
\<close>

definition run :: "bool \<Rightarrow> RunEnv \<Rightarrow> RunOptions \<Rightarrow> (error + ClaudeRunResult) option" where
  "run isInitialized world options =
     (case (if \<not> isInitialized then initializeOutcome world else None) of
        Some e \<Rightarrow> Some (Inl e)
      | None \<Rightarrow>
          (case getContainerOutcome world of
             Inl e \<Rightarrow> Some (Inl e)
           | Inr assignment \<Rightarrow>
               (case (if hasOnOutput options then subscribeOutcome world else None) of
                  Some e \<Rightarrow> Some (Inl e)
                | None \<Rightarrow>
                    (case runBody world options of
                       None \<Rightarrow> None
                     | Some outcome \<Rightarrow>
                         (case (if hasOnOutput options then unsubscribeOutcome world else None) of
                            Some e \<Rightarrow> Some (Inl e)
                          | None \<Rightarrow> Some outcome)))))"

text \<open>A session that never publishes a result and whose clock gains 500 ms per round.\<close>

definition silentPoll :: PollEnv where
  "silentPoll =
     \<lparr>startTime = 1000, clockAt = (\<lambda>k. 1000 + 500 * int k), resultAt = (\<lambda>k. Inr None),
      stateAt = (\<lambda>k. Inr (Some exampleState)), finalResultAt = (\<lambda>k. Inr None)\<rparr>"

definition silentEnv :: RunEnv where
  "silentEnv =
     \<lparr>initializeOutcome = None,
      getContainerOutcome =
        Inr \<lparr>assignedName = ''clawdbot-cc-s1-e5d'', assignedId = ''4f2a90c1'', isNew = False,
             wasWarm = False\<rparr>,
      subscribeOutcome = None, sendInputOutcome = None, polls = silentPoll,
      stateAfter = Inr (Some exampleState), onResultOutcome = None,
      unsubscribeOutcome = None\<rparr>"

section \<open>Pool manager (agents/docker-cc/pool-manager.ts)\<close>

text \<open>
  \<open>PoolState\<close>. \<open>containers\<close> is a JavaScript \<open>Map\<close>, kept as an association list in
  insertion order (\<open>AList.update\<close> replaces the value of a key in place or appends a new
  key, as \<open>Map.set\<close> does, so the keys stay distinct and the length of the list is the
  size of the \<open>Map\<close>); the other map is only read, set and deleted by key, and the set only
  added to, deleted from and counted.
\<close>

record PoolState =
  containers :: "(string \<times> ContainerRegistryEntry) list"
  sessionToContainer :: "string \<rightharpoonup> string"
  warmPool :: "string set"

definition emptyPoolState :: PoolState where
  "emptyPoolState = \<lparr>containers = [], sessionToContainer = Map.empty, warmPool = {}\<rparr>"

subsection \<open>The container runtime\<close>

text \<open>
  \<open>container.ts\<close> is not among the sources. The functions the pool manager imports from
  it are taken as a parameter: a Docker daemon is a state of any type \<open>'d\<close>, the queries
  read it, the commands change it, and each may fail.
\<close>

typedecl ClaudeContainerConfig

record ContainerCreateOptions =
  opt_sessionKey :: string
  opt_agentId :: "string option"
  opt_workspaceDir :: string
  opt_claudeConfig :: "ClaudeContainerConfig option"

record ContainerRunState =
  state_exists :: bool
  state_running :: bool

record CreateResult =
  created_id :: string
  created_name :: string

record 'd DockerApi =
  isDockerAvailable :: "'d \<Rightarrow> error + bool"
  listContainers :: "'d \<Rightarrow> error + string list"
  getContainerState :: "'d \<Rightarrow> string \<Rightarrow> error + ContainerRunState"
  createAndStartContainer :: "'d \<Rightarrow> ContainerCreateOptions \<Rightarrow> (error + CreateResult) \<times> 'd"
  stopContainer :: "'d \<Rightarrow> string \<Rightarrow> error option \<times> 'd"
  removeContainer :: "'d \<Rightarrow> string \<Rightarrow> error option \<times> 'd"

text \<open>
  Everything an operation of the pool manager reads and writes: its own fields
  (\<open>this.state\<close>, \<open>this.isRunning\<close>), the registry file, and the Docker daemon. An
  operation returns its result, or the error it threw, with the world it leaves behind.
\<close>

record 'd World =
  poolState :: PoolState
  managerRunning :: bool
  registryDisk :: Disk
  dockerDaemon :: 'd

type_synonym ('d, 'a) action = "'d World \<Rightarrow> (error + 'a) \<times> 'd World"

record GetContainerParams =
  p_sessionKey :: string
  p_agentId :: "string option"
  p_workspaceDir :: string
  p_claudeConfig :: "ClaudeContainerConfig option"

subsection \<open>getContainer\<close>

text \<open>
  The last step of \<open>getContainer\<close>: create and start a new container, record it in the
  registry, then in memory. \<open>now\<close> is \<open>Date.now()\<close>.
\<close>

definition createContainerFor ::
  "'d DockerApi \<Rightarrow> int \<Rightarrow> GetContainerParams \<Rightarrow> ('d, ContainerAssignment) action" where
  "createContainerFor api now params w =
     (case createAndStartContainer api (dockerDaemon w)
             \<lparr>opt_sessionKey = p_sessionKey params, opt_agentId = p_agentId params,
              opt_workspaceDir = p_workspaceDir params,
              opt_claudeConfig = p_claudeConfig params\<rparr> of
        (Inl e, d) \<Rightarrow> (Inl e, w\<lparr>dockerDaemon := d\<rparr>)
      | (Inr created, d) \<Rightarrow>
          (let entry =
                 \<lparr>containerId = created_id created, containerName = created_name created,
                  sessionKey = Some (p_sessionKey params), agentId = p_agentId params,
                  status = Idle, createdAt = now, lastHeartbeat = now, claudeSessionId = None,
                  turnCount = 0, configHash = []\<rparr>
           in (case updateContainerEntry (registryDisk w) entry of
                 Inl e \<Rightarrow> (Inl e, w\<lparr>dockerDaemon := d\<rparr>)
               | Inr disk' \<Rightarrow>
                   (Inr \<lparr>assignedName = created_name created, assignedId = created_id created,
                         isNew = True, wasWarm = False\<rparr>,
                    w\<lparr>dockerDaemon := d, registryDisk := disk',
                       poolState := (poolState w)
                         \<lparr>containers :=
                            AList.update (created_name created) entry (containers (poolState w)),
                          sessionToContainer :=
                            (sessionToContainer (poolState w))
                              (p_sessionKey params \<mapsto> created_name created)\<rparr>\<rparr>))))"

text \<open>
  The step before: take the first warm container of the registry, if there is one. The
  call \<open>void this.ensureWarmPool()\<close> that follows is not awaited: it has changed nothing
  when \<open>getContainer\<close> returns, and is an operation of its own below.
\<close>

definition assignWarmContainer ::
  "'d DockerApi \<Rightarrow> int \<Rightarrow> GetContainerParams \<Rightarrow> ('d, ContainerAssignment) action" where
  "assignWarmContainer api now params w =
     (case listWarmContainers (registryDisk w) of
        Inl e \<Rightarrow> (Inl e, w)
      | Inr [] \<Rightarrow> createContainerFor api now params w
      | Inr (warm # _) \<Rightarrow>
          (case assignContainerToSession (registryDisk w) (containerName warm)
                  (p_sessionKey params) (p_agentId params) now of
             Inl e \<Rightarrow> (Inl e, w)
           | Inr disk' \<Rightarrow>
               (Inr \<lparr>assignedName = containerName warm, assignedId = containerId warm,
                     isNew = False, wasWarm = True\<rparr>,
                w\<lparr>registryDisk := disk',
                   poolState := (poolState w)
                     \<lparr>containers :=
                        AList.update (containerName warm)
                          (warm\<lparr>sessionKey := Some (p_sessionKey params),
                                agentId := p_agentId params\<rparr>)
                          (containers (poolState w)),
                      sessionToContainer :=
                        (sessionToContainer (poolState w))
                          (p_sessionKey params \<mapsto> containerName warm),
                      warmPool := warmPool (poolState w) - {containerName warm}\<rparr>\<rparr>)))"

text \<open>The two caps, checked on the registry before anything is assigned or created.\<close>

definition checkLimits ::
  "'d DockerApi \<Rightarrow> DockerCCPoolConfig \<Rightarrow> int \<Rightarrow> GetContainerParams \<Rightarrow>
   ('d, ContainerAssignment) action" where
  "checkLimits api config now params w =
     (case listContainersByAgent (registryDisk w)
             (case p_agentId params of None \<Rightarrow> [] | Some a \<Rightarrow> a) of
        Inl e \<Rightarrow> (Inl e, w)
      | Inr agentContainers \<Rightarrow>
          if int (length agentContainers) \<ge> maxPerAgent (pool config)
          then (Inl MaxPerAgentReached, w)
          else (case listContainerEntries (registryDisk w) of
                  Inl e \<Rightarrow> (Inl e, w)
                | Inr allContainers \<Rightarrow>
                    if int (length allContainers) \<ge> maxTotal (pool config)
                    then (Inl MaxTotalReached, w)
                    else assignWarmContainer api now params w))"

text \<open>
  The registry's assignment for the session, adopted when Docker says that its container
  exists and runs.
\<close>

definition adoptRegistered ::
  "'d DockerApi \<Rightarrow> DockerCCPoolConfig \<Rightarrow> int \<Rightarrow> GetContainerParams \<Rightarrow>
   ('d, ContainerAssignment) action" where
  "adoptRegistered api config now params w =
     (case getContainerBySessionKey (registryDisk w) (p_sessionKey params) of
        Inl e \<Rightarrow> (Inl e, w)
      | Inr None \<Rightarrow> checkLimits api config now params w
      | Inr (Some registryEntry) \<Rightarrow>
          (case getContainerState api (dockerDaemon w) (containerName registryEntry) of
             Inl e \<Rightarrow> (Inl e, w)
           | Inr st \<Rightarrow>
               if state_exists st \<and> state_running st then
                 (Inr \<lparr>assignedName = containerName registryEntry,
                       assignedId = containerId registryEntry, isNew = False, wasWarm = False\<rparr>,
                  w\<lparr>poolState := (poolState w)
                      \<lparr>containers :=
                         AList.update (containerName registryEntry) registryEntry
                           (containers (poolState w)),
                       sessionToContainer :=
                         (sessionToContainer (poolState w))
                           (p_sessionKey params \<mapsto> containerName registryEntry)\<rparr>\<rparr>)
               else checkLimits api config now params w))"

text \<open>
  \<open>getContainer\<close>. First the in-memory maps: a name mapped from the session key (and
  truthy, that is non-empty) whose entry is in \<open>containers\<close> is returned at once.
\<close>

definition getContainer ::
  "'d DockerApi \<Rightarrow> DockerCCPoolConfig \<Rightarrow> int \<Rightarrow> GetContainerParams \<Rightarrow>
   ('d, ContainerAssignment) action" where
  "getContainer api config now params w =
     (case (case sessionToContainer (poolState w) (p_sessionKey params) of
              None \<Rightarrow> None
            | Some existingName \<Rightarrow>
                if existingName \<noteq> [] then
                  (case map_of (containers (poolState w)) existingName of
                     None \<Rightarrow> None
                   | Some entry \<Rightarrow> Some (existingName, entry))
                else None) of
        Some (existingName, entry) \<Rightarrow>
          (Inr \<lparr>assignedName = existingName, assignedId = containerId entry, isNew = False,
                wasWarm = False\<rparr>, w)
      | None \<Rightarrow> adoptRegistered api config now params w)"

subsection \<open>Release and removal\<close>

text \<open>The three awaited calls that destroy a container: stop, remove, drop the entry.\<close>

definition destroyContainer :: "'d DockerApi \<Rightarrow> string \<Rightarrow> ('d, unit) action" where
  "destroyContainer api name w =
     (case stopContainer api (dockerDaemon w) name of
        (Some e, d) \<Rightarrow> (Inl e, w\<lparr>dockerDaemon := d\<rparr>)
      | (None, d) \<Rightarrow>
          (case removeContainer api d name of
             (Some e, d') \<Rightarrow> (Inl e, w\<lparr>dockerDaemon := d'\<rparr>)
           | (None, d') \<Rightarrow>
               (case removeContainerEntry (registryDisk w) name of
                  Inl e \<Rightarrow> (Inl e, w\<lparr>dockerDaemon := d'\<rparr>)
                | Inr disk' \<Rightarrow> (Inr (), w\<lparr>dockerDaemon := d', registryDisk := disk'\<rparr>))))"

definition releaseContainer ::
  "'d DockerApi \<Rightarrow> DockerCCPoolConfig \<Rightarrow> int \<Rightarrow> string \<Rightarrow> bool \<Rightarrow> ('d, unit) action" where
  "releaseContainer api config now key returnToPool w =
     (case sessionToContainer (poolState w) key of
        None \<Rightarrow> (Inr (), w)
      | Some name \<Rightarrow>
          if name = [] then (Inr (), w)
          else
            (let w1 = w\<lparr>poolState := (poolState w)
                         \<lparr>sessionToContainer := (sessionToContainer (poolState w))(key := None)\<rparr>\<rparr>
             in if returnToPool \<and> int (card (warmPool (poolState w1))) < minWarm (pool config)
                then
                  (case unassignContainer (registryDisk w1) name now of
                     Inl e \<Rightarrow> (Inl e, w1)
                   | Inr disk' \<Rightarrow>
                       (Inr (),
                        w1\<lparr>registryDisk := disk',
                           poolState := (poolState w1)
                             \<lparr>warmPool := insert name (warmPool (poolState w1)),
                              containers :=
                                (case map_of (containers (poolState w1)) name of
                                   None \<Rightarrow> containers (poolState w1)
                                 | Some entry \<Rightarrow>
                                     AList.update name
                                       (entry\<lparr>sessionKey := None, agentId := None,
                                              status := Idle\<rparr>)
                                       (containers (poolState w1)))\<rparr>\<rparr>))
                else
                  (case destroyContainer api name w1 of
                     (Inl e, w2) \<Rightarrow> (Inl e, w2)
                   | (Inr _, w2) \<Rightarrow>
                       (Inr (),
                        w2\<lparr>poolState := (poolState w2)
                             \<lparr>containers := AList.delete name (containers (poolState w2))\<rparr>\<rparr>))))"

text \<open>
  \<open>removeContainerByName\<close>: the maps are cleaned first, then the container is
  destroyed. A session key that is \<open>null\<close> or empty is falsy.
\<close>

definition removeContainerByName :: "'d DockerApi \<Rightarrow> string \<Rightarrow> ('d, unit) action" where
  "removeContainerByName api name w =
     (let st = poolState w;
          st1 = (case map_of (containers st) name of
                   None \<Rightarrow> st
                 | Some entry \<Rightarrow>
                     (case sessionKey entry of
                        None \<Rightarrow> st
                      | Some k \<Rightarrow>
                          if k \<noteq> [] then st\<lparr>sessionToContainer := (sessionToContainer st)(k := None)\<rparr>
                          else st));
          st2 = st1\<lparr>warmPool := warmPool st1 - {name},
                    containers := AList.delete name (containers st1)\<rparr>
      in destroyContainer api name (w\<lparr>poolState := st2\<rparr>))"

subsection \<open>Synchronising with Docker and the registry\<close>

text \<open>The loop of \<open>syncState\<close> that rebuilds the maps from the registry entries.\<close>

fun rebuildState :: "ContainerRegistryEntry list \<Rightarrow> PoolState \<Rightarrow> PoolState" where
  "rebuildState [] st = st"
| "rebuildState (entry # rest) st =
     rebuildState rest
       (let st1 = st\<lparr>containers := AList.update (containerName entry) entry (containers st)\<rparr>
        in (case sessionKey entry of
              Some k \<Rightarrow>
                if k \<noteq> [] then
                  st1\<lparr>sessionToContainer := (sessionToContainer st1)(k \<mapsto> containerName entry)\<rparr>
                else if status entry = Idle then
                  st1\<lparr>warmPool := insert (containerName entry) (warmPool st1)\<rparr>
                else st1
            | None \<Rightarrow>
                if status entry = Idle then
                  st1\<lparr>warmPool := insert (containerName entry) (warmPool st1)\<rparr>
                else st1))"

definition syncState :: "'d DockerApi \<Rightarrow> ('d, unit) action" where
  "syncState api w =
     (case listContainers api (dockerDaemon w) of
        Inl e \<Rightarrow> (Inl e, w)
      | Inr dockerNames \<Rightarrow>
          (case syncWithDocker (registryDisk w) (set dockerNames) of
             Inl e \<Rightarrow> (Inl e, w)
           | Inr (disk', removed) \<Rightarrow>
               (case listContainerEntries disk' of
                  Inl e \<Rightarrow> (Inl e, w\<lparr>registryDisk := disk'\<rparr>)
                | Inr registryEntries \<Rightarrow>
                    (Inr (),
                     w\<lparr>registryDisk := disk',
                        poolState := rebuildState registryEntries emptyPoolState\<rparr>))))"

subsection \<open>The warm pool\<close>

text \<open>
  \<open>createWarmContainer\<close>. \<open>suffix\<close> is the text \<open>${Date.now()}-${random}\<close> of the
  synthetic session key.
\<close>

definition createWarmContainer :: "'d DockerApi \<Rightarrow> int \<Rightarrow> string \<Rightarrow> ('d, unit) action" where
  "createWarmContainer api now suffix w =
     (case createAndStartContainer api (dockerDaemon w)
             \<lparr>opt_sessionKey = ''warm-'' @ suffix, opt_agentId = None,
              opt_workspaceDir = ''/tmp/clawdbot-warm'', opt_claudeConfig = None\<rparr> of
        (Inl e, d) \<Rightarrow> (Inl e, w\<lparr>dockerDaemon := d\<rparr>)
      | (Inr created, d) \<Rightarrow>
          (let entry =
                 \<lparr>containerId = created_id created, containerName = created_name created,
                  sessionKey = None, agentId = None, status = Idle, createdAt = now,
                  lastHeartbeat = now, claudeSessionId = None, turnCount = 0, configHash = []\<rparr>
           in (case updateContainerEntry (registryDisk w) entry of
                 Inl e \<Rightarrow> (Inl e, w\<lparr>dockerDaemon := d\<rparr>)
               | Inr disk' \<Rightarrow>
                   (Inr (),
                    w\<lparr>dockerDaemon := d, registryDisk := disk',
                       poolState := (poolState w)
                         \<lparr>containers :=
                            AList.update (created_name created) entry (containers (poolState w)),
                          warmPool := insert (created_name created) (warmPool (poolState w))\<rparr>\<rparr>))))"

text \<open>
  The loop of \<open>ensureWarmPool\<close>: \<open>n\<close> more rounds, of which \<open>i\<close> is the next; an error
  of \<open>createWarmContainer\<close> is caught and logged, and the loop goes on from the world the
  failed call left. \<open>suffixes i\<close> is the suffix drawn in round \<open>i\<close>.
\<close>

fun warmLoop :: "'d DockerApi \<Rightarrow> int \<Rightarrow> (nat \<Rightarrow> string) \<Rightarrow> nat \<Rightarrow> nat \<Rightarrow> 'd World \<Rightarrow> 'd World" where
  "warmLoop api now suffixes 0 i w = w"
| "warmLoop api now suffixes (Suc n) i w =
     warmLoop api now suffixes n (Suc i) (snd (createWarmContainer api now (suffixes i) w))"

definition ensureWarmPool ::
  "'d DockerApi \<Rightarrow> DockerCCPoolConfig \<Rightarrow> int \<Rightarrow> (nat \<Rightarrow> string) \<Rightarrow> ('d, unit) action" where
  "ensureWarmPool api config now suffixes w =
     (let needed = minWarm (pool config) - int (card (warmPool (poolState w)))
      in if needed \<le> 0 then (Inr (), w)
         else
           (let currentTotal = int (length (containers (poolState w)));
                canCreate = min needed (maxTotal (pool config) - currentTotal)
            in (Inr (), warmLoop api now suffixes (nat canCreate) 0 w)))"

subsection \<open>The two ticks\<close>

text \<open>
  The loop of \<open>checkHealth\<close> over the stale entries of the registry. An error thrown by
  an awaited call ends the tick where it stands.
\<close>

fun healthLoop :: "'d DockerApi \<Rightarrow> int \<Rightarrow> ContainerRegistryEntry list \<Rightarrow> ('d, unit) action" where
  "healthLoop api now [] w = (Inr (), w)"
| "healthLoop api now (container # rest) w =
     (case getContainerState api (dockerDaemon w) (containerName container) of
        Inl e \<Rightarrow> (Inl e, w)
      | Inr st \<Rightarrow>
          if \<not> state_exists st \<or> \<not> state_running st then
            (case removeContainerByName api (containerName container) w of
               (Inl e, w1) \<Rightarrow> (Inl e, w1)
             | (Inr _, w1) \<Rightarrow> healthLoop api now rest w1)
          else
            (case updateContainerStatus (registryDisk w) (containerName container) Failed now of
               Inl e \<Rightarrow> (Inl e, w)
             | Inr disk' \<Rightarrow>
                 healthLoop api now rest
                   (w\<lparr>registryDisk := disk',
                      poolState :=
                        (case sessionKey container of
                           None \<Rightarrow> poolState w
                         | Some k \<Rightarrow>
                             if k \<noteq> [] then
                               (poolState w)
                                 \<lparr>sessionToContainer :=
                                    (sessionToContainer (poolState w))(k := None)\<rparr>
                             else poolState w)\<rparr>)))"

definition checkHealth ::
  "'d DockerApi \<Rightarrow> DockerCCPoolConfig \<Rightarrow> int \<Rightarrow> ('d, unit) action" where
  "checkHealth api config now w =
     (if \<not> managerRunning w then (Inr (), w)
      else
        (case getStaleContainers (registryDisk w) (healthIntervalMs (timeouts config) * 6) now of
           Inl e \<Rightarrow> (Inl e, w)
         | Inr staleContainers \<Rightarrow> healthLoop api now staleContainers w))"

text \<open>The loops of \<open>maintenance\<close> that remove the listed containers, one after the other.\<close>

fun removeContainers :: "'d DockerApi \<Rightarrow> ContainerRegistryEntry list \<Rightarrow> ('d, unit) action" where
  "removeContainers api [] w = (Inr (), w)"
| "removeContainers api (container # rest) w =
     (case removeContainerByName api (containerName container) w of
        (Inl e, w1) \<Rightarrow> (Inl e, w1)
      | (Inr _, w1) \<Rightarrow> removeContainers api rest w1)"

text \<open>
  \<open>maintenance\<close>. \<open>Array.prototype.sort\<close> is stable, and so is \<open>sort_key\<close>.
\<close>

definition maintenance ::
  "'d DockerApi \<Rightarrow> DockerCCPoolConfig \<Rightarrow> int \<Rightarrow> (nat \<Rightarrow> string) \<Rightarrow> ('d, unit) action" where
  "maintenance api config now suffixes w =
     (if \<not> managerRunning w then (Inr (), w)
      else
        (case getIdleContainers (registryDisk w) (idleMs (timeouts config)) now of
           Inl e \<Rightarrow> (Inl e, w)
         | Inr idleContainers \<Rightarrow>
             (let keepWarm = max 0 (minWarm (pool config) - int (card (warmPool (poolState w))));
                  toRemove = drop (nat keepWarm) (sort_key lastHeartbeat idleContainers)
              in (case removeContainers api toRemove w of
                    (Inl e, w1) \<Rightarrow> (Inl e, w1)
                  | (Inr _, w1) \<Rightarrow>
                      (case getExpiredContainers (registryDisk w1) (maxAgeMs (timeouts config))
                              now of
                         Inl e \<Rightarrow> (Inl e, w1)
                       | Inr expiredContainers \<Rightarrow>
                           (case removeContainers api expiredContainers w1 of
                              (Inl e, w2) \<Rightarrow> (Inl e, w2)
                            | (Inr _, w2) \<Rightarrow> ensureWarmPool api config now suffixes w2))))))"

subsection \<open>Start, stop and shutdown\<close>

definition start ::
  "'d DockerApi \<Rightarrow> DockerCCPoolConfig \<Rightarrow> int \<Rightarrow> (nat \<Rightarrow> string) \<Rightarrow> ('d, unit) action" where
  "start api config now suffixes w =
     (if managerRunning w then (Inr (), w)
      else
        (case isDockerAvailable api (dockerDaemon w) of
           Inl e \<Rightarrow> (Inl e, w)
         | Inr dockerOk \<Rightarrow>
             if \<not> dockerOk then (Inl DockerUnavailable, w)
             else
               (case syncState api w of
                  (Inl e, w1) \<Rightarrow> (Inl e, w1)
                | (Inr _, w1) \<Rightarrow>
                    ensureWarmPool api config now suffixes (w1\<lparr>managerRunning := True\<rparr>))))"

definition stop :: "('d, unit) action" where
  "stop w = (Inr (), w\<lparr>managerRunning := False\<rparr>)"

text \<open>
  The loop of \<open>shutdown\<close> over the names in \<open>containers\<close>: the three calls are in one
  \<open>try\<close> block per name, whose errors are ignored.
\<close>

fun shutdownLoop :: "'d DockerApi \<Rightarrow> string list \<Rightarrow> 'd World \<Rightarrow> 'd World" where
  "shutdownLoop api [] w = w"
| "shutdownLoop api (name # rest) w = shutdownLoop api rest (snd (destroyContainer api name w))"

definition shutdown :: "'d DockerApi \<Rightarrow> ('d, unit) action" where
  "shutdown api w =
     (let w1 = snd (stop w);
          w2 = shutdownLoop api (map fst (containers (poolState w1))) w1
      in (Inr (), w2\<lparr>poolState := emptyPoolState\<rparr>))"

subsection \<open>Example worlds\<close>

text \<open>
  A session \<open>s1\<close> served by the container \<open>clawdbot-cc-s1-e5d\<close>, which is idle and
  last reported at time 2000; the registry and the manager's maps agree on it.
\<close>

definition assignedEntry :: ContainerRegistryEntry where
  "assignedEntry =
     \<lparr>containerId = ''4f2a90c1'', containerName = ''clawdbot-cc-s1-e5d'',
      sessionKey = Some ''s1'', agentId = Some ''main'', status = Idle, createdAt = 2000,
      lastHeartbeat = 2000, claudeSessionId = None, turnCount = 0, configHash = []\<rparr>"

definition assignedDisk :: Disk where
  "assignedDisk =
     \<lparr>registryFile = Stored \<lparr>version = 1, entries = [assignedEntry]\<rparr>, writable = True\<rparr>"

definition assignedState :: PoolState where
  "assignedState =
     \<lparr>containers = [(''clawdbot-cc-s1-e5d'', assignedEntry)],
      sessionToContainer = [''s1'' \<mapsto> ''clawdbot-cc-s1-e5d''], warmPool = {}\<rparr>"

text \<open>
  Two Docker daemons without state of their own. The first has every container running
  and creates the container above for any request; the second has no container at all.
\<close>

definition healthyDocker :: "unit DockerApi" where
  "healthyDocker =
     \<lparr>isDockerAvailable = (\<lambda>d. Inr True),
      listContainers = (\<lambda>d. Inr [''clawdbot-cc-s1-e5d'']),
      getContainerState = (\<lambda>d name. Inr \<lparr>state_exists = True, state_running = True\<rparr>),
      createAndStartContainer =
        (\<lambda>d opts. (Inr \<lparr>created_id = ''4f2a90c1'', created_name = ''clawdbot-cc-s1-e5d''\<rparr>, d)),
      stopContainer = (\<lambda>d name. (None, d)),
      removeContainer = (\<lambda>d name. (None, d))\<rparr>"

definition emptyDocker :: "unit DockerApi" where
  "emptyDocker =
     \<lparr>isDockerAvailable = (\<lambda>d. Inr True),
      listContainers = (\<lambda>d. Inr []),
      getContainerState = (\<lambda>d name. Inr \<lparr>state_exists = False, state_running = False\<rparr>),
      createAndStartContainer = (\<lambda>d opts. (Inl DockerFailed, d)),
      stopContainer = (\<lambda>d name. (Some DockerFailed, d)),
      removeContainer = (\<lambda>d name. (Some DockerFailed, d))\<rparr>"

definition assignedWorld :: "unit World" where
  "assignedWorld =
     \<lparr>poolState = assignedState, managerRunning = True, registryDisk = assignedDisk,
      dockerDaemon = ()\<rparr>"

definition freshWorld :: "unit World" where
  "freshWorld =
     \<lparr>poolState = emptyPoolState, managerRunning = False,
      registryDisk = \<lparr>registryFile = Missing, writable = True\<rparr>, dockerDaemon = ()\<rparr>"

definition s1Params :: GetContainerParams where
  "s1Params =
     \<lparr>p_sessionKey = ''s1'', p_agentId = Some ''main'', p_workspaceDir = ''/work/s1'',
      p_claudeConfig = None\<rparr>"

subsection \<open>The invariant of the in-memory maps\<close>

text \<open>
  A container of the in-memory map is \<^emph>\<open>mapped from its session key\<close> when its entry has a
  session key and \<open>sessionToContainer\<close> maps that key back to its name. \<open>exactlyOne\<close> is
  the invariant as the specification states it (mapped or warm, never both), \<open>neverBoth\<close>
  its second half.
\<close>

definition mappedFromKey :: "PoolState \<Rightarrow> string \<Rightarrow> bool" where
  "mappedFromKey st name =
     (case map_of (containers st) name of
        None \<Rightarrow> False
      | Some entry \<Rightarrow>
          (case sessionKey entry of
             None \<Rightarrow> False
           | Some k \<Rightarrow> sessionToContainer st k = Some name))"

definition exactlyOne :: "PoolState \<Rightarrow> bool" where
  "exactlyOne st =
     list_all (\<lambda>name. mappedFromKey st name \<noteq> (name \<in> warmPool st)) (map fst (containers st))"

definition neverBoth :: "PoolState \<Rightarrow> bool" where
  "neverBoth st =
     list_all (\<lambda>name. \<not> (mappedFromKey st name \<and> name \<in> warmPool st))
       (map fst (containers st))"

text \<open>
  What the registry functions read from a disk, and two properties of it that the pool
  manager's own writes keep: names are unique and no session key is empty; and no entry
  with a session key names a member of the warm pool.
\<close>

definition registryEntries :: "Disk \<Rightarrow> ContainerRegistryEntry list" where
  "registryEntries d = (case readRegistry d of Inl _ \<Rightarrow> [] | Inr registry \<Rightarrow> entries registry)"

definition wellFormedRegistry :: "ContainerRegistryEntry list \<Rightarrow> bool" where
  "wellFormedRegistry es =
     (distinct (map containerName es) \<and> list_all (\<lambda>e. sessionKey e \<noteq> Some []) es)"

definition warmUnassigned :: "PoolState \<Rightarrow> ContainerRegistryEntry list \<Rightarrow> bool" where
  "warmUnassigned st es =
     list_all (\<lambda>e. sessionKey e = None \<or> containerName e \<notin> warmPool st) es"

definition poolInvariant :: "'d World \<Rightarrow> bool" where
  "poolInvariant w =
     (neverBoth (poolState w) \<and>
      warmUnassigned (poolState w) (registryEntries (registryDisk w)) \<and>
      wellFormedRegistry (registryEntries (registryDisk w)))"

text \<open>
  The name a \<open>getContainer\<close> call would be given by Docker for a new container is not one
  the warm pool still holds.
\<close>

definition createsFreshName :: "'d DockerApi \<Rightarrow> GetContainerParams \<Rightarrow> 'd World \<Rightarrow> bool" where
  "createsFreshName api params w =
     (case fst (createAndStartContainer api (dockerDaemon w)
                  \<lparr>opt_sessionKey = p_sessionKey params, opt_agentId = p_agentId params,
                   opt_workspaceDir = p_workspaceDir params,
                   opt_claudeConfig = p_claudeConfig params\<rparr>) of
        Inl _ \<Rightarrow> True
      | Inr created \<Rightarrow> created_name created \<notin> warmPool (poolState w))"

text \<open>
  The worlds a pool manager reaches from \<open>w0\<close> when its operations run one at a time, in
  any order and with any arguments, each to its end or to the error it throws. Session
  keys are not empty, \<open>getContainer\<close> is given fresh names as above, the background call
  of \<open>ensureWarmPool\<close> is a step of its own, and the Docker daemon may change by itself
  between two operations.
\<close>

inductive reachable :: "'d DockerApi \<Rightarrow> DockerCCPoolConfig \<Rightarrow> 'd World \<Rightarrow> 'd World \<Rightarrow> bool"
  for api :: "'d DockerApi" and config :: DockerCCPoolConfig and w0 :: "'d World" where
  Init: "reachable api config w0 w0"
| Start: "reachable api config w0 w \<Longrightarrow>
          reachable api config w0 (snd (start api config now suffixes w))"
| GetContainer: "reachable api config w0 w \<Longrightarrow> p_sessionKey params \<noteq> [] \<Longrightarrow>
          createsFreshName api params w \<Longrightarrow>
          reachable api config w0 (snd (getContainer api config now params w))"
| ReleaseContainer: "reachable api config w0 w \<Longrightarrow>
          reachable api config w0 (snd (releaseContainer api config now key returnToPool w))"
| EnsureWarmPool: "reachable api config w0 w \<Longrightarrow>
          reachable api config w0 (snd (ensureWarmPool api config now suffixes w))"
| CheckHealth: "reachable api config w0 w \<Longrightarrow>
          reachable api config w0 (snd (checkHealth api config now w))"
| Maintenance: "reachable api config w0 w \<Longrightarrow>
          reachable api config w0 (snd (maintenance api config now suffixes w))"
| Stop: "reachable api config w0 w \<Longrightarrow> reachable api config w0 (snd (stop w))"
| Shutdown: "reachable api config w0 w \<Longrightarrow> reachable api config w0 (snd (shutdown api w))"
| DockerChanges: "reachable api config w0 w \<Longrightarrow>
          reachable api config w0 (w\<lparr>dockerDaemon := d\<rparr>)"

text \<open>The three properties together, for a pool state and the entries of the registry.\<close>

definition consistent :: "PoolState \<Rightarrow> ContainerRegistryEntry list \<Rightarrow> bool" where
  "consistent st es = (neverBoth st \<and> warmUnassigned st es \<and> wellFormedRegistry es)"

text \<open>
  Two further inputs: a request with the empty session key, served by a daemon that names
  the container after it, and a configuration that keeps one warm container.
\<close>

definition emptyKeyParams :: GetContainerParams where
  "emptyKeyParams =
     \<lparr>p_sessionKey = [], p_agentId = Some ''main'', p_workspaceDir = ''/work/s1'',
      p_claudeConfig = None\<rparr>"

definition emptyKeyDocker :: "unit DockerApi" where
  "emptyKeyDocker =
     healthyDocker
       \<lparr>listContainers := (\<lambda>d. Inr [''clawdbot-cc--0'']),
        createAndStartContainer :=
          (\<lambda>d opts. (Inr \<lparr>created_id = ''7c1e55a0'', created_name = ''clawdbot-cc--0''\<rparr>, d))\<rparr>"

definition oneWarmConfig :: DockerCCPoolConfig where
  "oneWarmConfig =
     DEFAULT_DOCKER_CC_CONFIG\<lparr>pool := \<lparr>minWarm = 1, maxTotal = 10, maxPerAgent = 3\<rparr>\<rparr>"


section \<open>Properties of the stream parser\<close>

declare parserStep.simps [simp del]

lemma run_append:
  "parserRun parse p (a @ b) =
     (case parserRun parse p a of
        (p1, out) \<Rightarrow> (case parserRun parse p1 b of (p2, rest) \<Rightarrow> (p2, out @ rest)))"
  by (induction a arbitrary: p) (auto split: prod.splits)

lemma canonical_step: "canonical p \<Longrightarrow> canonical (fst (parserStep parse p c))"
  by (auto simp: canonical_def parserStep.simps new_StreamParser_def)

lemma canonical_run: "canonical p \<Longrightarrow> canonical (fst (parserRun parse p s))"
proof (induction s arbitrary: p)
  case Nil then show ?case by simp
next
  case (Cons c cs)
  from Cons.prems have "canonical (fst (parserStep parse p c))" by (rule canonical_step)
  from Cons.IH [OF this] show ?case by (auto split: prod.splits)
qed

lemma step_inside:
  "parserStep parse (inside buf bc) c =
     (if c = CHR ''{'' then (inside (buf @ [c]) (bc + 1), [])
      else if c = CHR ''}'' then
        (if bc - 1 = 0 then (new_StreamParser, emit parse (buf @ [c]))
         else (inside (buf @ [c]) (bc - 1), []))
      else (inside (buf @ [c]) bc, []))"
  by (simp add: parserStep.simps inside_def emit_def)

lemma step_idle:
  "parserStep parse new_StreamParser c =
     (if c = CHR ''{'' then (inside [c] 1, []) else (new_StreamParser, []))"
  by (simp add: parserStep.simps inside_def new_StreamParser_def)

lemma scan_run:
  "scan (buf @ rest) (length buf) bc = (r, bc') \<Longrightarrow>
     (case r of
        None \<Rightarrow> parserRun parse (inside buf bc) rest = (inside (buf @ rest) bc', [])
      | Some i \<Rightarrow>
          bc' = 0 \<and> length buf \<le> i \<and> i < length (buf @ rest) \<and>
          parserRun parse (inside buf bc) rest =
            (case parserRun parse new_StreamParser (drop (i + 1) (buf @ rest)) of
               (p2, out) \<Rightarrow> (p2, emit parse (take (i + 1) (buf @ rest)) @ out)))"
proof (induction rest arbitrary: buf bc)
  case Nil
  then show ?case by (simp add: scan.simps [of buf "length buf"])
next
  case (Cons c cs)
  have nth: "(buf @ c # cs) ! length buf = c" by simp
  have unfold: "scan (buf @ c # cs) (length buf) bc =
      (if c = CHR ''{'' then scan ((buf @ [c]) @ cs) (length (buf @ [c])) (bc + 1)
       else if c = CHR ''}'' then
         (if bc - 1 = 0 then (Some (length buf), bc - 1)
          else scan ((buf @ [c]) @ cs) (length (buf @ [c])) (bc - 1))
       else scan ((buf @ [c]) @ cs) (length (buf @ [c])) bc)"
    by (subst scan.simps) (simp add: nth)
  show ?case
  proof (cases "c = CHR ''}'' \<and> bc - 1 = 0")
    case True
    with Cons.prems unfold have r: "r = Some (length buf)" "bc' = 0" by auto
    show ?thesis using True r by (simp add: step_inside split: prod.splits)
  next
    case False
    define bc2 where "bc2 = (if c = CHR ''{'' then bc + 1 else if c = CHR ''}'' then bc - 1 else bc)"
    have s: "scan ((buf @ [c]) @ cs) (length (buf @ [c])) bc2 = (r, bc')"
      using Cons.prems unfold False by (auto simp: bc2_def split: if_splits)
    have st: "parserStep parse (inside buf bc) c = (inside (buf @ [c]) bc2, [])"
      using False by (auto simp: step_inside bc2_def)
    from Cons.IH [OF s] show ?thesis
      using st by (auto split: option.splits prod.splits)
  qed
qed


lemma run_idle_noise:
  "indexOf s CHR ''{'' = None \<Longrightarrow> parserRun parse new_StreamParser s = (new_StreamParser, [])"
  by (induction s) (auto simp: step_idle split: if_splits option.splits)

lemma run_idle_skip:
  "indexOf s CHR ''{'' = Some idx \<Longrightarrow>
     idx < length s \<and> s ! idx = CHR ''{'' \<and>
     parserRun parse new_StreamParser s = parserRun parse new_StreamParser (drop idx s)"
proof (induction s arbitrary: idx)
  case Nil
  then show ?case by simp
next
  case (Cons c cs)
  show ?case
  proof (cases "c = CHR ''{''")
    case True
    with Cons.prems show ?thesis by simp
  next
    case False
    with Cons.prems obtain j where j: "indexOf cs CHR ''{'' = Some j" "idx = Suc j"
      by (auto split: option.splits)
    from Cons.IH [OF j(1)] False j(2) show ?thesis
      by (simp add: step_idle)
  qed
qed

lemma scan_open:
  "scan (CHR ''{'' # cs) 0 0 = scan ([CHR ''{''] @ cs) (length [CHR ''{'']) 1"
  by (subst scan.simps) simp

lemma run_idle_open:
  "parserRun parse new_StreamParser (CHR ''{'' # cs) = parserRun parse (inside [CHR ''{''] 1) cs"
  by (simp add: step_idle)

lemma feed_loop_run:
  "(\<not> inJson p \<longrightarrow> p\<lparr>buffer := []\<rparr> = new_StreamParser \<longrightarrow>
      feed_loop parse p acc =
        (case parserRun parse new_StreamParser (buffer p) of (p', out) \<Rightarrow> (p', acc @ out))) \<and>
   (inJson p \<longrightarrow> scanPosition p \<le> length (buffer p) \<longrightarrow>
      feed_loop parse p acc =
        (case parserRun parse (inside (take (scanPosition p) (buffer p)) (braceCount p))
                (drop (scanPosition p) (buffer p)) of
           (p', out) \<Rightarrow> (p', acc @ out)))"
proof (induction "length (buffer p)" arbitrary: p acc rule: less_induct)
  case less
  have found: "feed_loop parse
        (q\<lparr>buffer := drop (i + 1) (buffer q), inJson := False, braceCount := 0,
            scanPosition := 0\<rparr>) acc' =
      (case parserRun parse new_StreamParser (drop (i + 1) (buffer q)) of
         (p', out) \<Rightarrow> (p', acc' @ out))"
    if "length (buffer q) \<le> length (buffer p)" "buffer p \<noteq> []" for q :: StreamParser and i acc'
  proof -
    let ?q = "q\<lparr>buffer := drop (i + 1) (buffer q), inJson := False, braceCount := 0,
                 scanPosition := 0\<rparr>"
    have "length (buffer ?q) < length (buffer p)"
      using that by (cases "buffer p") auto
    from less [OF this, of acc'] show ?thesis
      by (simp add: new_StreamParser_def)
  qed
  show ?case
  proof (intro conjI impI)
    assume idle: "\<not> inJson p" "p\<lparr>buffer := []\<rparr> = new_StreamParser"
    show "feed_loop parse p acc =
        (case parserRun parse new_StreamParser (buffer p) of (p', out) \<Rightarrow> (p', acc @ out))"
    proof (cases "buffer p = []")
      case True
      with idle have "p = new_StreamParser"
        by (metis StreamParser.surjective StreamParser.update_convs(1))
      then show ?thesis
        by (subst feed_loop.simps) (simp add: new_StreamParser_def)
    next
      case False
      show ?thesis
      proof (cases "indexOf (buffer p) CHR ''{''")
        case None
        then have "seekOpen p = None" using idle by (simp add: seekOpen_def)
        moreover have "p\<lparr>buffer := [], scanPosition := 0\<rparr> = new_StreamParser"
          using idle(2) by (simp add: new_StreamParser_def)
        ultimately show ?thesis
          using False None by (subst feed_loop.simps) (simp add: run_idle_noise)
      next
        case (Some idx)
        define p1 where "p1 = p\<lparr>buffer := drop idx (buffer p), inJson := True, braceCount := 0,
                     scanPosition := 0\<rparr>"
        have seek: "seekOpen p = Some p1" using idle Some by (simp add: seekOpen_def p1_def)
        from run_idle_skip [OF Some, of parse]
        have idx: "idx < length (buffer p)" "buffer p ! idx = CHR ''{''"
          and skip: "parserRun parse new_StreamParser (buffer p) =
                     parserRun parse new_StreamParser (drop idx (buffer p))"
          by simp_all
        obtain cs where cs: "drop idx (buffer p) = CHR ''{'' # cs"
          using idx by (metis Cons_nth_drop_Suc)
        have whole: "parserRun parse new_StreamParser (buffer p) = parserRun parse (inside [CHR ''{''] 1) cs"
          by (simp only: skip cs run_idle_open)
        have b1: "buffer p1 = CHR ''{'' # cs" "scanPosition p1 = 0" "braceCount p1 = 0"
          by (simp_all add: p1_def cs)
        have len1: "length (buffer p1) \<le> length (buffer p)"
          by (simp add: p1_def)
        obtain r bc' where sc: "scan ([CHR ''{''] @ cs) (length [CHR ''{'']) 1 = (r, bc')"
          by (cases "scan ([CHR ''{''] @ cs) (length [CHR ''{'']) 1") auto
        then have sc0: "scan (buffer p1) (scanPosition p1) (braceCount p1) = (r, bc')"
          by (simp add: b1 scan_open)
        note sr = scan_run [OF sc, of parse]
        show ?thesis
        proof (cases r)
          case None
          with sr have "parserRun parse (inside [CHR ''{''] 1) cs = (inside (CHR ''{'' # cs) bc', [])"
            by simp
          moreover have "p1\<lparr>braceCount := bc', scanPosition := length (buffer p1)\<rparr> =
                         inside (CHR ''{'' # cs) bc'"
            by (simp add: p1_def inside_def cs)
          ultimately show ?thesis
            using False seek sc0 None
            by (subst feed_loop.simps) (simp add: whole)
        next
          case (Some i)
          with sr have bc': "bc' = 0"
            and rr: "parserRun parse (inside [CHR ''{''] 1) cs =
              (case parserRun parse new_StreamParser (drop (i + 1) (CHR ''{'' # cs)) of
                 (p2, out) \<Rightarrow> (p2, emit parse (take (i + 1) (CHR ''{'' # cs)) @ out))"
            by simp_all
          have "feed_loop parse p acc =
              feed_loop parse
                (p1\<lparr>buffer := drop (i + 1) (buffer p1), inJson := False, braceCount := 0,
                    scanPosition := 0\<rparr>)
                (acc @ emit parse (take (i + 1) (buffer p1)))"
            using False seek sc0 Some bc'
            by (subst feed_loop.simps) (simp add: emit_def split: option.splits)
          also have "\<dots> = (case parserRun parse new_StreamParser (drop (i + 1) (buffer p1)) of
                 (p', out) \<Rightarrow> (p', (acc @ emit parse (take (i + 1) (buffer p1))) @ out))"
            by (rule found [OF len1 False])
          finally show ?thesis
            by (simp add: whole rr b1 split: prod.splits)
        qed
      qed
    qed
  next
    assume ins: "inJson p" "scanPosition p \<le> length (buffer p)"
    define k where "k = scanPosition p"
    have split: "buffer p = take k (buffer p) @ drop k (buffer p)" by simp
    have lk: "length (take k (buffer p)) = k" using ins by (simp add: k_def)
    show "feed_loop parse p acc =
        (case parserRun parse (inside (take (scanPosition p) (buffer p)) (braceCount p))
                (drop (scanPosition p) (buffer p)) of
           (p', out) \<Rightarrow> (p', acc @ out))"
    proof (cases "buffer p = []")
      case True
      then have "p = inside [] (braceCount p)"
        using ins by (simp add: inside_def)
      then show ?thesis
        using True by (subst feed_loop.simps) simp
    next
      case False
      have seek: "seekOpen p = Some p" using ins by (simp add: seekOpen_def)
      obtain r bc' where sc0: "scan (buffer p) (scanPosition p) (braceCount p) = (r, bc')"
        by (cases "scan (buffer p) (scanPosition p) (braceCount p)") auto
      then have sc: "scan (take k (buffer p) @ drop k (buffer p)) (length (take k (buffer p)))
                       (braceCount p) = (r, bc')"
        using lk by (simp add: k_def)
      note sr = scan_run [OF sc, of parse]
      show ?thesis
      proof (cases r)
        case None
        with sr have "parserRun parse (inside (take k (buffer p)) (braceCount p)) (drop k (buffer p)) =
                      (inside (buffer p) bc', [])"
          by simp
        moreover have "p\<lparr>braceCount := bc', scanPosition := length (buffer p)\<rparr> =
                       inside (buffer p) bc'"
          using ins by (simp add: inside_def)
        ultimately show ?thesis
          using False seek sc0 None
          by (subst feed_loop.simps) (simp add: k_def)
      next
        case (Some i)
        with sr have bc': "bc' = 0"
          and rr: "parserRun parse (inside (take k (buffer p)) (braceCount p)) (drop k (buffer p)) =
            (case parserRun parse new_StreamParser (drop (i + 1) (buffer p)) of
               (p2, out) \<Rightarrow> (p2, emit parse (take (i + 1) (buffer p)) @ out))"
          by simp_all
        have "feed_loop parse p acc =
            feed_loop parse
              (p\<lparr>buffer := drop (i + 1) (buffer p), inJson := False, braceCount := 0,
                  scanPosition := 0\<rparr>)
              (acc @ emit parse (take (i + 1) (buffer p)))"
          using False seek sc0 Some bc'
          by (subst feed_loop.simps) (simp add: emit_def split: option.splits)
        also have "\<dots> = (case parserRun parse new_StreamParser (drop (i + 1) (buffer p)) of
               (p', out) \<Rightarrow> (p', (acc @ emit parse (take (i + 1) (buffer p))) @ out))"
          by (rule found [OF order_refl False])
        finally show ?thesis
          using rr by (simp add: k_def split: prod.splits)
      qed
    qed
  qed
qed

lemma feed_run: "canonical p \<Longrightarrow> feed parse p data = parserRun parse p data"
proof (cases "inJson p")
  case True
  assume "canonical p"
  with True have sp: "scanPosition p = length (buffer p)" by (simp add: canonical_def)
  let ?q = "p\<lparr>buffer := buffer p @ data\<rparr>"
  have "inJson ?q" "scanPosition ?q \<le> length (buffer ?q)" using True sp by simp_all
  with feed_loop_run [of ?q parse "[]"]
  have "feed_loop parse ?q [] =
        (case parserRun parse (inside (take (scanPosition ?q) (buffer ?q)) (braceCount ?q))
                (drop (scanPosition ?q) (buffer ?q)) of (p', out) \<Rightarrow> (p', [] @ out))"
    by blast
  moreover have "inside (buffer p) (braceCount p) = p"
    using True sp by (simp add: inside_def)
  ultimately show ?thesis
    by (simp add: feed_def sp split: prod.splits)
next
  case False
  assume "canonical p"
  with False have p: "p = new_StreamParser" by (simp add: canonical_def)
  let ?q = "p\<lparr>buffer := buffer p @ data\<rparr>"
  have "\<not> inJson ?q" "?q\<lparr>buffer := []\<rparr> = new_StreamParser"
    by (simp_all add: p new_StreamParser_def)
  with feed_loop_run [of ?q parse "[]"]
  have "feed_loop parse ?q [] =
        (case parserRun parse new_StreamParser (buffer ?q) of (p', out) \<Rightarrow> (p', [] @ out))"
    by blast
  then show ?thesis
    by (simp add: feed_def p new_StreamParser_def split: prod.splits)
qed

lemma canonical_new: "canonical new_StreamParser"
  by (simp add: canonical_def new_StreamParser_def)

text \<open>
  Claim C1. Feeding the concatenation \<open>a @ b\<close> to a fresh parser emits the same sequence
  of parsed records as feeding \<open>a\<close> and then \<open>b\<close> to a fresh parser, and leaves the parser
  in the same state.
\<close>

theorem feed_split:
  "feed parse new_StreamParser (a @ b) =
     (case feed parse new_StreamParser a of
        (p1, first) \<Rightarrow> (case feed parse p1 b of (p2, second) \<Rightarrow> (p2, first @ second)))"
proof -
  obtain p1 first where r1: "parserRun parse new_StreamParser a = (p1, first)"
    by (cases "parserRun parse new_StreamParser a") auto
  have "canonical (fst (parserRun parse new_StreamParser a))"
    by (rule canonical_run [OF canonical_new])
  then have c1: "canonical p1" by (simp add: r1)
  show ?thesis
    by (simp add: feed_run [OF canonical_new] feed_run [OF c1] run_append r1)
qed

lemma braceDepth_simps [simp]:
  "braceDepth [] = 0"
  "braceDepth (c # cs) =
     (if c = CHR ''{'' then 1 else if c = CHR ''}'' then - 1 else 0) + braceDepth cs"
  "braceDepth (a @ b) = braceDepth a + braceDepth b"
  by (induction a) (auto simp: braceDepth_def)

lemma run_inside_open:
  "(\<And>k. 0 < k \<Longrightarrow> k \<le> length s \<Longrightarrow> bc + braceDepth (take k s) \<noteq> 0) \<Longrightarrow>
   parserRun parse (inside buf bc) s = (inside (buf @ s) (bc + braceDepth s), [])"
proof (induction s arbitrary: buf bc)
  case Nil
  then show ?case by simp
next
  case (Cons c cs)
  define bc2 where "bc2 = bc + braceDepth [c]"
  from Cons.prems [of 1] have nz: "bc2 \<noteq> 0" by (simp add: bc2_def)
  have st: "parserStep parse (inside buf bc) c = (inside (buf @ [c]) bc2, [])"
    using nz by (auto simp: step_inside bc2_def)
  have "bc2 + braceDepth (take k cs) \<noteq> 0" if "0 < k" "k \<le> length cs" for k
    using Cons.prems [of "Suc k"] that by (simp add: bc2_def)
  from Cons.IH [OF this, of "buf @ [c]"]
  have "parserRun parse (inside (buf @ [c]) bc2) cs = (inside (buf @ c # cs) (bc2 + braceDepth cs), [])"
    by simp
  moreover have "bc2 + braceDepth cs = bc + braceDepth (c # cs)"
    by (simp add: bc2_def)
  ultimately show ?case
    by (simp only: parserRun.simps st prod.case append_Nil)
qed

lemma run_record:
  assumes "isRecord r"
  shows "parserRun parse new_StreamParser r = (new_StreamParser, emit parse r)"
proof -
  from assms have ne: "r \<noteq> []" and hd: "hd r = CHR ''{''" and d0: "braceDepth r = 0"
    and pre: "\<And>k. 1 \<le> k \<Longrightarrow> k < length r \<Longrightarrow> 0 < braceDepth (take k r)"
    by (auto simp: isRecord_def list_all_iff)
  obtain t where r: "r = CHR ''{'' # t" using ne hd by (cases r) auto
  have "t \<noteq> []" using d0 r by auto
  then obtain mid l where t: "t = mid @ [l]" by (metis rev_exhaust)
  have dm: "0 < 1 + braceDepth mid"
    using pre [of "length r - 1"] by (simp add: r t)
  have l: "l = CHR ''}''" and dm1: "1 + braceDepth mid = 1"
    using d0 dm by (auto simp: r t split: if_splits)
  have "1 + braceDepth (take k mid) \<noteq> 0" if "0 < k" "k \<le> length mid" for k
    using pre [of "Suc k"] that by (simp add: r t)
  from run_inside_open [OF this, of parse "[CHR ''{'']"]
  have "parserRun parse (inside [CHR ''{''] 1) mid = (inside (CHR ''{'' # mid) 1, [])"
    using dm1 by simp
  then show ?thesis
    by (simp add: r t l run_append step_idle step_inside)
qed

lemma run_noise: "isNoise s \<Longrightarrow> parserRun parse new_StreamParser s = (new_StreamParser, [])"
  by (induction s) (auto simp: step_idle isNoise_def)

lemma run_assemble:
  "isNoise lead \<Longrightarrow> list_all (\<lambda>(r, gap). isRecord r \<and> isNoise gap) rs \<Longrightarrow>
   parserRun parse new_StreamParser (assemble lead rs) =
     (new_StreamParser, concat (map (\<lambda>(r, gap). emit parse r) rs))"
proof (induction rs arbitrary: lead)
  case Nil
  then show ?case by (simp add: run_noise)
next
  case (Cons x rs)
  obtain r gap where x: "x = (r, gap)" by (cases x)
  from Cons.prems have "isRecord r" "isNoise gap"
    "list_all (\<lambda>(r, gap). isRecord r \<and> isNoise gap) rs"
    by (simp_all add: x)
  with Cons.IH [of gap] Cons.prems(1) show ?case
    by (simp add: x run_append run_noise run_record)
qed

lemma parseStream_run:
  "canonical p \<Longrightarrow> parseStream parse p chunks = parserRun parse p (concat chunks)"
proof (induction chunks arbitrary: p)
  case Nil
  then show ?case by simp
next
  case (Cons c cs)
  obtain p1 out where r1: "parserRun parse p c = (p1, out)" by (cases "parserRun parse p c") auto
  have "canonical (fst (parserRun parse p c))" by (rule canonical_run [OF Cons.prems])
  then have "canonical p1" by (simp add: r1)
  from Cons.IH [OF this] show ?case
    by (simp add: feed_run [OF Cons.prems] r1 run_append)
qed

text \<open>
  Claim C7 (as amended). Let the input be leading noise followed by \<open>n\<close> records, each
  followed by noise, where noise holds no opening brace and every record is
  brace-delimited in the parser's sense and accepted by \<open>JSON.parse\<close>. Then, however the
  input is cut into chunks, the parser yields exactly the \<open>n\<close> decoded records, in input
  order, each once, and ends with nothing pending.
\<close>

theorem parseStream_records:
  assumes "isNoise lead"
    and "list_all (\<lambda>(r, gap). isRecord r \<and> parse r \<noteq> None \<and> isNoise gap) rs"
    and "concat chunks = assemble lead rs"
  shows "parseStream parse new_StreamParser chunks =
           (new_StreamParser, map (\<lambda>(r, gap). the (parse r)) rs)"
proof -
  have a: "list_all (\<lambda>(r, gap). isRecord r \<and> isNoise gap) rs"
    using assms(2) by (auto simp: list_all_iff)
  have "concat (map (\<lambda>(r, gap). emit parse r) rs) = map (\<lambda>(r, gap). the (parse r)) rs"
    using assms(2) by (induction rs) (auto simp: emit_def)
  then show ?thesis
    by (simp add: parseStream_run [OF canonical_new] assms(3) run_assemble [OF assms(1) a])
qed


theorem parseStream_records_witness:
  "isNoise ''x'' \<and>
   list_all (\<lambda>(r, gap). isRecord r \<and> Some r \<noteq> None \<and> isNoise gap)
     [(''{a}'', ''y}''), (''{{}}'', [])] \<and>
   concat [''x{'', ''a}y'', ''}{{}'', ''}''] = assemble ''x'' [(''{a}'', ''y}''), (''{{}}'', [])] \<and>
   parseStream Some new_StreamParser [''x{'', ''a}y'', ''}{{}'', ''}''] =
     (new_StreamParser, [''{a}'', ''{{}}''])"
proof -
  have h1: "isNoise ''x''" by (simp add: isNoise_def)
  have h2: "list_all (\<lambda>(r, gap). isRecord r \<and> Some r \<noteq> None \<and> isNoise gap)
     [(''{a}'', ''y}''), (''{{}}'', [])]"
    by code_simp
  have h3: "concat [''x{'', ''a}y'', ''}{{}'', ''}''] =
      assemble ''x'' [(''{a}'', ''y}''), (''{{}}'', [])]"
    by simp
  show ?thesis
    using h1 h2 h3 parseStream_records [OF h1 h2 h3] by simp
qed

text \<open>
  Claim C7 as stated, with arbitrary noise, fails: the noise \<open>{\<close> before the record
  \<open>{}\<close> opens an object that never closes, and nothing is emitted.
\<close>

theorem parseStream_noise_counterexample:
  "isRecord ''{}'' \<and> concat [''{{}''] = assemble ''{'' [(''{}'', [])] \<and>
   snd (parseStream Some new_StreamParser [''{{}'']) = []"
  by code_simp

section \<open>Properties of the registry\<close>

lemma find_mutateFirst:
  "find p xs = Some x \<Longrightarrow> (\<And>y. p (f y) = p y) \<Longrightarrow> find p (mutateFirst p f xs) = Some (f x)"
  by (induction xs) (auto split: if_splits)

lemma readRegistry_written:
  "version data = REGISTRY_VERSION \<Longrightarrow> readRegistry (disk\<lparr>registryFile := Stored data\<rparr>) = Inr data"
  by (simp add: readRegistry_def)

lemma readRegistry_version:
  "readRegistry disk = Inr registry \<Longrightarrow> version registry = REGISTRY_VERSION"
  by (auto simp: readRegistry_def split: RegistryFile.splits if_splits)

text \<open>
  Claim C8. If the registry holds an entry named \<open>n\<close> (and the file can be written),
  \<open>assignContainerToSession\<close> followed by \<open>unassignContainer\<close> both succeed and leave the
  entry of that name with \<open>sessionKey = null\<close>, status idle, turn count 0 and no
  \<open>claudeSessionId\<close>.
\<close>

theorem assign_then_unassign:
  assumes "getContainerEntry disk n = Inr (Some e)" and "writable disk"
  shows "\<exists>disk1 disk2 e'.
           assignContainerToSession disk n key agent now1 = Inr disk1 \<and>
           unassignContainer disk1 n now2 = Inr disk2 \<and>
           getContainerEntry disk2 n = Inr (Some e') \<and>
           sessionKey e' = None \<and> status e' = Idle \<and> turnCount e' = 0 \<and>
           claudeSessionId e' = None"
proof -
  from assms(1) obtain registry where rd: "readRegistry disk = Inr registry"
    and fd: "find (\<lambda>e. containerName e = n) (entries registry) = Some e"
    by (auto simp: getContainerEntry_def split: sum.splits)
  have v: "version registry = REGISTRY_VERSION" by (rule readRegistry_version [OF rd])
  define f1 where "f1 = (\<lambda>entry :: ContainerRegistryEntry.
      entry\<lparr>sessionKey := Some key, agentId := agent, lastHeartbeat := now1\<rparr>)"
  define f2 where "f2 = (\<lambda>entry :: ContainerRegistryEntry.
      entry\<lparr>sessionKey := None, agentId := None, claudeSessionId := None, turnCount := 0,
            status := Idle, lastHeartbeat := now2\<rparr>)"
  define r1 where "r1 = registry\<lparr>entries :=
      mutateFirst (\<lambda>e. containerName e = n) f1 (entries registry)\<rparr>"
  define disk1 where "disk1 = disk\<lparr>registryFile := Stored r1\<rparr>"
  define r2 where "r2 = r1\<lparr>entries := mutateFirst (\<lambda>e. containerName e = n) f2 (entries r1)\<rparr>"
  define disk2 where "disk2 = disk1\<lparr>registryFile := Stored r2\<rparr>"
  have a: "assignContainerToSession disk n key agent now1 = Inr disk1"
    using rd fd assms(2)
    by (simp add: assignContainerToSession_def writeRegistry_def disk1_def r1_def f1_def)
  have rd1: "readRegistry disk1 = Inr r1"
    unfolding disk1_def by (rule readRegistry_written) (simp add: r1_def v)
  have fd1: "find (\<lambda>e. containerName e = n) (entries r1) = Some (f1 e)"
    unfolding r1_def using find_mutateFirst [OF fd, of f1] by (simp add: f1_def)
  have u: "unassignContainer disk1 n now2 = Inr disk2"
    using rd1 fd1 assms(2)
    by (simp add: unassignContainer_def writeRegistry_def disk2_def r2_def f2_def disk1_def)
  have rd2: "readRegistry disk2 = Inr r2"
    unfolding disk2_def by (rule readRegistry_written) (simp add: r2_def r1_def v)
  have fd2: "find (\<lambda>e. containerName e = n) (entries r2) = Some (f2 (f1 e))"
    unfolding r2_def using find_mutateFirst [OF fd1, of f2] by (simp add: f2_def)
  have g: "getContainerEntry disk2 n = Inr (Some (f2 (f1 e)))"
    using rd2 fd2 by (simp add: getContainerEntry_def)
  show ?thesis
    using a u g by (intro exI [of _ disk1] exI [of _ disk2] exI [of _ "f2 (f1 e)"])
      (simp add: f2_def)
qed

theorem assign_then_unassign_witness:
  "getContainerEntry exampleDisk ''clawdbot-cc-s1-e5d'' = Inr (Some exampleEntry) \<and>
   writable exampleDisk \<and>
   (\<exists>disk1 disk2 e'.
      assignContainerToSession exampleDisk ''clawdbot-cc-s1-e5d'' ''s1'' (Some ''main'') 3000 =
        Inr disk1 \<and>
      unassignContainer disk1 ''clawdbot-cc-s1-e5d'' 4000 = Inr disk2 \<and>
      getContainerEntry disk2 ''clawdbot-cc-s1-e5d'' = Inr (Some e') \<and>
      sessionKey e' = None \<and> status e' = Idle \<and> turnCount e' = 0 \<and>
      claudeSessionId e' = None)"
proof -
  have h1: "getContainerEntry exampleDisk ''clawdbot-cc-s1-e5d'' = Inr (Some exampleEntry)"
    by (simp add: getContainerEntry_def readRegistry_def exampleDisk_def exampleEntry_def
        REGISTRY_VERSION_def)
  have h2: "writable exampleDisk"
    by (simp add: exampleDisk_def)
  show ?thesis
    using h1 h2 assign_then_unassign [OF h1 h2, of "''s1''" "Some ''main''" 3000 4000]
    by simp
qed

text \<open>
  Claim C10. When the registry can be read and holds no entry of the given name, each of
  the four name-keyed mutations returns without error and leaves the disk as it was.
\<close>

theorem mutations_of_unknown_name:
  assumes "getContainerEntry disk n = Inr None"
  shows "assignContainerToSession disk n key agent now = Inr disk \<and>
         unassignContainer disk n now = Inr disk \<and>
         updateContainerStatus disk n st now = Inr disk \<and>
         updateContainerHeartbeat disk n claudeSession turns now = Inr disk"
proof -
  from assms obtain registry where "readRegistry disk = Inr registry"
    and "find (\<lambda>e. containerName e = n) (entries registry) = None"
    by (auto simp: getContainerEntry_def split: sum.splits)
  then show ?thesis
    by (simp add: assignContainerToSession_def unassignContainer_def updateContainerStatus_def
        updateContainerHeartbeat_def)
qed

theorem mutations_of_unknown_name_witness:
  "getContainerEntry exampleDisk ''clawdbot-cc-other'' = Inr None \<and>
   assignContainerToSession exampleDisk ''clawdbot-cc-other'' ''s2'' None 3000 =
     Inr exampleDisk \<and>
   unassignContainer exampleDisk ''clawdbot-cc-other'' 3000 = Inr exampleDisk \<and>
   updateContainerStatus exampleDisk ''clawdbot-cc-other'' Failed 3000 = Inr exampleDisk \<and>
   updateContainerHeartbeat exampleDisk ''clawdbot-cc-other'' (Some ''resume-2'') (Some 7) 3000 =
     Inr exampleDisk"
proof -
  have h: "getContainerEntry exampleDisk ''clawdbot-cc-other'' = Inr None"
    by (simp add: getContainerEntry_def readRegistry_def exampleDisk_def exampleEntry_def
        REGISTRY_VERSION_def)
  show ?thesis
    using h mutations_of_unknown_name [OF h, of "''s2''" None 3000 Failed "Some ''resume-2''"
        "Some 7"]
    by simp
qed

section \<open>Properties of the configuration\<close>

lemma dash_not_alnum: "\<not> isLowerAlnum CHR ''-''"
  by (simp add: isLowerAlnum_def)

lemma squeezeDashes_other: "c \<noteq> CHR ''-'' \<Longrightarrow> squeezeDashes (c # xs) = c # squeezeDashes xs"
  by (cases xs) auto

lemma squeeze_replace:
  "squeezeDashes (replaceNonAlnum l) = dashRuns False l \<and>
   squeezeDashes (CHR ''-'' # replaceNonAlnum l) = CHR ''-'' # dashRuns True l"
proof (induction l)
  case Nil
  then show ?case by (simp add: replaceNonAlnum_def)
next
  case (Cons c l)
  show ?case
  proof (cases "isLowerAlnum c")
    case True
    then have "c \<noteq> CHR ''-''" using dash_not_alnum by auto
    with True Cons show ?thesis
      by (simp add: replaceNonAlnum_def squeezeDashes_other)
  next
    case False
    with Cons show ?thesis
      by (simp add: replaceNonAlnum_def)
  qed
qed

lemma noDoubleDash_dashRuns:
  "noDoubleDash (dashRuns False l) \<and> noDoubleDash (CHR ''-'' # dashRuns True l)"
proof (induction l)
  case Nil
  then show ?case by simp
next
  case (Cons c l)
  show ?case
  proof (cases "isLowerAlnum c")
    case True
    then have "c \<noteq> CHR ''-''" using dash_not_alnum by auto
    with True Cons show ?thesis by (cases "dashRuns False l") auto
  next
    case False
    with Cons show ?thesis by simp
  qed
qed

lemma noDoubleDash_tl: "noDoubleDash (c # cs) \<Longrightarrow> noDoubleDash cs"
  by (cases cs) auto

lemma noDoubleDash_snoc:
  "noDoubleDash (xs @ [y]) =
     (noDoubleDash xs \<and> (xs = [] \<or> \<not> (last xs = CHR ''-'' \<and> y = CHR ''-'')))"
  by (induction xs rule: noDoubleDash.induct) auto

lemma noDoubleDash_rev: "noDoubleDash (rev s) = noDoubleDash s"
proof (induction s rule: noDoubleDash.induct)
  case 1
  then show ?case by simp
next
  case (2 c)
  then show ?case by simp
next
  case (3 c d cs)
  have "noDoubleDash (rev (c # d # cs)) = noDoubleDash (rev (d # cs) @ [c])" by simp
  also have "\<dots> = (noDoubleDash (rev (d # cs)) \<and> \<not> (d = CHR ''-'' \<and> c = CHR ''-''))"
    by (subst noDoubleDash_snoc) (simp add: last_rev)
  finally show ?case using 3 by auto
qed

lemma dropWhile_dash:
  "noDoubleDash s \<Longrightarrow>
   dropWhile (\<lambda>c. c = CHR ''-'') s =
     (case s of [] \<Rightarrow> [] | c # cs \<Rightarrow> if c = CHR ''-'' then cs else s)"
proof (cases s)
  case Nil
  then show ?thesis by simp
next
  case (Cons c cs)
  assume "noDoubleDash s"
  with Cons show ?thesis by (cases cs) auto
qed

lemma stripEndDashes_stripDashes:
  assumes "noDoubleDash s"
  shows "stripEndDashes s = stripDashes s"
proof -
  define s1 where "s1 = (case s of [] \<Rightarrow> [] | c # cs \<Rightarrow> if c = CHR ''-'' then cs else s)"
  have d1: "dropWhile (\<lambda>c. c = CHR ''-'') s = s1"
    unfolding s1_def by (rule dropWhile_dash [OF assms])
  have "noDoubleDash s1"
    using assms noDoubleDash_tl by (auto simp: s1_def split: list.splits)
  then have "noDoubleDash (rev s1)" by (simp add: noDoubleDash_rev)
  from dropWhile_dash [OF this]
  have "rev (dropWhile (\<lambda>c. c = CHR ''-'') (rev s1)) =
        (if s1 \<noteq> [] \<and> last s1 = CHR ''-'' then butlast s1 else s1)"
    by (cases s1 rule: rev_cases) auto
  then show ?thesis
    by (simp add: stripDashes_def stripEndDashes_def d1 s1_def)
qed

lemma slug_refines: 
  "take 32 (stripEndDashes (squeezeDashes (replaceNonAlnum (map toLowerCase key)))) = slugOf key"
  using noDoubleDash_dashRuns [of "map toLowerCase key"]
  by (simp add: slugOf_def squeeze_replace stripEndDashes_stripDashes)

lemma toInt32_range: "- (2 ^ 31) \<le> toInt32 x \<and> toInt32 x < 2 ^ 31"
  by (simp add: toInt32_def)

lemma hashLoop_range:
  "- (2 ^ 31) \<le> h \<Longrightarrow> h < 2 ^ 31 \<Longrightarrow>
   - (2 ^ 31) \<le> hashLoop h s \<and> hashLoop h s < 2 ^ 31"
proof (induction s arbitrary: h)
  case Nil
  then show ?case by simp
next
  case (Cons c s)
  show ?case
    using Cons.IH [of "toInt32 (toInt32 (h * 2 ^ 5) - h + of_char c)"] toInt32_range
    by simp
qed

lemma simpleHash_range: "0 \<le> simpleHash s \<and> simpleHash s \<le> 2 ^ 31"
proof -
  have "- (2 ^ 31) \<le> hashLoop 0 s \<and> hashLoop 0 s < 2 ^ 31"
    by (rule hashLoop_range) simp_all
  then show ?thesis
    unfolding simpleHash_def by linarith
qed

lemma hexDigits_all: "list_all (\<lambda>d. isHexDigit (hexDigit d)) [0..<16]"
  by code_simp

lemma hexDigit_ok: "d < 16 \<Longrightarrow> isHexDigit (hexDigit d)"
  using hexDigits_all by (simp add: list_all_iff)

lemma toHex_digits: "list_all isHexDigit (toHex n)"
proof (induction n rule: toHex.induct)
  case (1 n)
  show ?case
  proof (cases "n < 16")
    case True
    then show ?thesis by (subst toHex.simps) (simp add: hexDigit_ok)
  next
    case False
    with 1 show ?thesis by (subst toHex.simps) (simp add: hexDigit_ok)
  qed
qed

lemma toHex_length: "n < 16 ^ k \<Longrightarrow> 0 < k \<Longrightarrow> 1 \<le> length (toHex n) \<and> length (toHex n) \<le> k"
proof (induction n arbitrary: k rule: toHex.induct)
  case (1 n)
  show ?case
  proof (cases "n < 16")
    case True
    with 1(3) show ?thesis by (subst (1 2) toHex.simps) simp
  next
    case False
    obtain j where k: "k = Suc j" using 1(3) by (cases k) auto
    have "j \<noteq> 0" using False 1(2) k by (cases j) auto
    moreover have "n div 16 < 16 ^ j"
      using 1(2) k by (simp add: less_mult_imp_div_less mult.commute)
    ultimately have "1 \<le> length (toHex (n div 16)) \<and> length (toHex (n div 16)) \<le> j"
      using 1(1) [OF False, of j] by simp
    then show ?thesis using False k by (subst (1 2) toHex.simps) simp
  qed
qed

text \<open>
  Claim C5 (as amended). The derived name is the slug the specification describes (the key
  lowercased, runs of non-alphanumeric characters replaced by one dash, leading and
  trailing dashes stripped, truncated to 32 characters), then a dash, then the fingerprint
  of the original key: the hexadecimal digits of the hash, between 1 and 8 of them, with no
  padding. The name is a function of the key alone.
\<close>

theorem slugifySessionKey_shape:
  "(let fingerprint = toHex (nat (simpleHash key))
    in slugifySessionKey key = slugOf key @ ''-'' @ fingerprint \<and>
       1 \<le> length fingerprint \<and> length fingerprint \<le> 8 \<and>
       list_all isHexDigit fingerprint)"
proof -
  have "simpleHash key < int (16 ^ 8)"
    using simpleHash_range [of key] by simp
  then have "nat (simpleHash key) < 16 ^ 8"
    by (simp only: nat_less_iff [OF conjunct1 [OF simpleHash_range]])
  from toHex_length [OF this]
  have len: "1 \<le> length (toHex (nat (simpleHash key)))"
    "length (toHex (nat (simpleHash key))) \<le> 8"
    by simp_all
  show ?thesis
    using len by (simp add: Let_def slugifySessionKey_def slug_refines toHex_digits)
qed

text \<open>
  Claim C5 as stated fails: the fingerprint is not always 8 characters. For the key \<open>a\<close>
  the hash is 97 and the name is \<open>a-61\<close>.
\<close>

theorem slugifySessionKey_counterexample:
  "slugifySessionKey ''a'' = ''a-61'' \<and> length (toHex (nat (simpleHash ''a''))) = 2"
  by code_simp

lemma validate_valid_iff:
  "valid (validateDockerCCConfig config) \<longleftrightarrow>
     0 \<le> minWarm (pool config) \<and> 1 \<le> maxTotal (pool config) \<and>
     minWarm (pool config) \<le> maxTotal (pool config) \<and> 1 \<le> maxPerAgent (pool config) \<and>
     image config \<noteq> [] \<and> 0.1 \<le> cpus (resources config) \<and>
     10 \<le> pidsLimit (resources config) \<and> 1000 \<le> healthIntervalMs (timeouts config) \<and>
     5000 \<le> startupMs (timeouts config)"
  by (auto simp: validateDockerCCConfig_def Let_def)

text \<open>
  Claim C4 (as amended). \<open>validateDockerCCConfig\<close> returns \<open>valid = false\<close>, with the
  matching message among the errors, whenever \<open>minWarm > maxTotal\<close> and whenever
  \<open>pidsLimit < 10\<close>. \<open>maxPerAgent\<close> is only required to be at least 1: it is never
  compared with \<open>maxTotal\<close>, so a configuration that passes the nine checks listed is
  valid whatever the order of \<open>maxPerAgent\<close> and \<open>maxTotal\<close>.
\<close>

theorem validate_caps:
  "(minWarm (pool config) > maxTotal (pool config) \<longrightarrow>
      \<not> valid (validateDockerCCConfig config) \<and>
      ''pool.minWarm cannot exceed pool.maxTotal'' \<in> set (errors (validateDockerCCConfig config))) \<and>
   (pidsLimit (resources config) < 10 \<longrightarrow>
      \<not> valid (validateDockerCCConfig config) \<and>
      ''resources.pidsLimit must be at least 10'' \<in> set (errors (validateDockerCCConfig config))) \<and>
   (valid (validateDockerCCConfig config) \<longleftrightarrow>
      0 \<le> minWarm (pool config) \<and> 1 \<le> maxTotal (pool config) \<and>
      minWarm (pool config) \<le> maxTotal (pool config) \<and> 1 \<le> maxPerAgent (pool config) \<and>
      image config \<noteq> [] \<and> 0.1 \<le> cpus (resources config) \<and>
      10 \<le> pidsLimit (resources config) \<and> 1000 \<le> healthIntervalMs (timeouts config) \<and>
      5000 \<le> startupMs (timeouts config))"
proof (intro conjI impI)
  assume "maxTotal (pool config) < minWarm (pool config)"
  then show "''pool.minWarm cannot exceed pool.maxTotal''
      \<in> set (errors (validateDockerCCConfig config))"
    by (simp add: validateDockerCCConfig_def Let_def)
next
  assume "pidsLimit (resources config) < 10"
  then show "''resources.pidsLimit must be at least 10''
      \<in> set (errors (validateDockerCCConfig config))"
    by (simp add: validateDockerCCConfig_def Let_def)
qed (simp_all add: validate_valid_iff)

theorem validate_caps_witness:
  "(let config = DEFAULT_DOCKER_CC_CONFIG
        \<lparr>pool := \<lparr>minWarm = 11, maxTotal = 10, maxPerAgent = 3\<rparr>,
         resources := \<lparr>memory = ''4g'', cpus = 2, pidsLimit = 9\<rparr>\<rparr>
    in minWarm (pool config) > maxTotal (pool config) \<and>
       pidsLimit (resources config) < 10 \<and>
       \<not> valid (validateDockerCCConfig config) \<and>
       ''pool.minWarm cannot exceed pool.maxTotal''
         \<in> set (errors (validateDockerCCConfig config)) \<and>
       ''resources.pidsLimit must be at least 10''
         \<in> set (errors (validateDockerCCConfig config)))"
proof -
  define config where "config = DEFAULT_DOCKER_CC_CONFIG
        \<lparr>pool := \<lparr>minWarm = 11, maxTotal = 10, maxPerAgent = 3\<rparr>,
         resources := \<lparr>memory = ''4g'', cpus = 2, pidsLimit = 9\<rparr>\<rparr>"
  have h1: "minWarm (pool config) > maxTotal (pool config)"
    by (simp add: config_def)
  have h2: "pidsLimit (resources config) < 10"
    by (simp add: config_def)
  show ?thesis
    using h1 h2 validate_caps [of config] unfolding config_def [symmetric] Let_def by blast
qed

text \<open>
  Claim C4 as stated fails for the second cap: the default configuration with
  \<open>maxPerAgent = 11\<close> (above \<open>maxTotal = 10\<close>) is valid, with no error.
\<close>

theorem validate_maxPerAgent_counterexample:
  "(let config = DEFAULT_DOCKER_CC_CONFIG
        \<lparr>pool := \<lparr>minWarm = 0, maxTotal = 10, maxPerAgent = 11\<rparr>\<rparr>
    in maxPerAgent (pool config) > maxTotal (pool config) \<and>
       validateDockerCCConfig config = \<lparr>valid = True, errors = []\<rparr>)"
  by (simp add: validateDockerCCConfig_def DEFAULT_DOCKER_CC_CONFIG_def)

section \<open>Properties of the health monitor\<close>

text \<open>
  Claim C3 (as amended). With a state record whose heartbeat timestamp is present and
  parses, \<open>checkContainer\<close> reports healthy exactly when the status is idle or running and
  the heartbeat age is at most \<open>3 \<times> healthIntervalMs\<close> (an age of exactly three intervals
  is still healthy), and stale exactly when the age exceeds it; with no state record, or
  no client, the result is unhealthy and stale.
\<close>

theorem checkContainer_healthy_iff:
  "(getSessionState key = Inr (Some st) \<and> state_lastHeartbeat st = Some ts \<and> ts \<noteq> [] \<and>
    parseDate ts = Some t \<longrightarrow>
      (\<exists>r. checkContainer config (Some getSessionState) parseDate now key = Inr r \<and>
           (healthy r \<longleftrightarrow>
              (state_status st = Idle \<or> state_status st = Running) \<and>
              now - t \<le> 3 * healthIntervalMs (timeouts config)) \<and>
           (isStale r \<longleftrightarrow> now - t > 3 * healthIntervalMs (timeouts config)) \<and>
           statusRecord r = Some st \<and> lastHeartbeatAgeMs r = Some (Num (now - t)))) \<and>
   (getSessionState key = Inr None \<longrightarrow>
      checkContainer config (Some getSessionState) parseDate now key =
        Inr \<lparr>healthy = False, statusRecord = None, lastHeartbeatAgeMs = None,
             isStale = True\<rparr>) \<and>
   checkContainer config None parseDate now key =
     Inr \<lparr>healthy = False, statusRecord = None, lastHeartbeatAgeMs = None, isStale = True\<rparr>"
  by (auto simp: checkContainer_def Let_def mult.commute)

theorem checkContainer_healthy_iff_witness:
  "(\<lambda>k. Inr (Some exampleState) :: error + ContainerHealthStatus option) ''s1'' =
     Inr (Some exampleState) \<and>
   state_lastHeartbeat exampleState = Some ''1970-01-01T00:00:05.000Z'' \<and>
   ''1970-01-01T00:00:05.000Z'' \<noteq> [] \<and>
   exampleParseDate ''1970-01-01T00:00:05.000Z'' = Some 5000 \<and>
   (\<exists>r. checkContainer DEFAULT_DOCKER_CC_CONFIG (Some (\<lambda>k. Inr (Some exampleState)))
           exampleParseDate 40000 ''s1'' = Inr r \<and>
        \<not> healthy r \<and> isStale r \<and> lastHeartbeatAgeMs r = Some (Num 35000)) \<and>
   (\<lambda>k. Inr None :: error + ContainerHealthStatus option) ''s2'' = Inr None \<and>
   checkContainer DEFAULT_DOCKER_CC_CONFIG (Some (\<lambda>k. Inr None)) exampleParseDate 40000 ''s2'' =
     Inr \<lparr>healthy = False, statusRecord = None, lastHeartbeatAgeMs = None, isStale = True\<rparr>"
proof -
  have h: "state_lastHeartbeat exampleState = Some ''1970-01-01T00:00:05.000Z'' \<and>
      ''1970-01-01T00:00:05.000Z'' \<noteq> [] \<and>
      exampleParseDate ''1970-01-01T00:00:05.000Z'' = Some 5000"
    by (simp add: exampleState_def exampleParseDate_def)
  have i: "healthIntervalMs (timeouts DEFAULT_DOCKER_CC_CONFIG) = 10000"
    by (simp add: DEFAULT_DOCKER_CC_CONFIG_def)
  show ?thesis
    using h i
      checkContainer_healthy_iff [of "\<lambda>k. Inr (Some exampleState)" "''s1''" exampleState
        "''1970-01-01T00:00:05.000Z''" exampleParseDate 5000 DEFAULT_DOCKER_CC_CONFIG 40000]
      checkContainer_healthy_iff [of "\<lambda>k. Inr None" "''s2''" exampleState
        "''1970-01-01T00:00:05.000Z''" exampleParseDate 5000 DEFAULT_DOCKER_CC_CONFIG 40000]
    by auto
qed

text \<open>
  Claim C3 as stated fails at the boundary: with \<open>healthIntervalMs = 10000\<close> and a
  heartbeat exactly 30000 ms old (not strictly less than three intervals), a running
  session is reported healthy and not stale.
\<close>

theorem checkContainer_boundary_counterexample:
  "checkContainer DEFAULT_DOCKER_CC_CONFIG (Some (\<lambda>k. Inr (Some exampleState)))
     exampleParseDate 35000 ''s1'' =
   Inr \<lparr>healthy = True, statusRecord = Some exampleState,
        lastHeartbeatAgeMs = Some (Num (3 * healthIntervalMs (timeouts DEFAULT_DOCKER_CC_CONFIG))),
        isStale = False\<rparr>"
  by (simp add: checkContainer_def exampleState_def exampleParseDate_def
      DEFAULT_DOCKER_CC_CONFIG_def)

text \<open>
  What the code does with a state record that has no heartbeat timestamp: the age is
  \<open>null\<close>, which \<open>checkContainer\<close> does not count as stale, although the helper
  \<open>isHeartbeatStale\<close> does.
\<close>

lemma checkContainer_no_heartbeat:
  "state_lastHeartbeat st = None \<Longrightarrow>
   checkContainer config (Some (\<lambda>k. Inr (Some st))) parseDate now key =
     Inr \<lparr>healthy = (state_status st = Idle \<or> state_status st = Running),
          statusRecord = Some st, lastHeartbeatAgeMs = None, isStale = False\<rparr> \<and>
   isHeartbeatStale parseDate now (state_lastHeartbeat st) thresholdMs"
  by (simp add: checkContainer_def isHeartbeatStale_def parseHeartbeatAge_def)

section \<open>Properties of waiting and running\<close>

text \<open>
  As long as every round inside the timeout finds no result and no terminal state, and the
  clock gains at least 500 ms per round (the \<open>sleep(500)\<close>), the loop returns \<open>null\<close>.
\<close>

lemma waitLoop_timeout:
  assumes adv: "\<And>j. clockAt poll j + 500 \<le> clockAt poll (Suc j)"
    and quiet: "\<And>j. clockAt poll j - startTime poll < limit \<Longrightarrow>
                  resultAt poll j = Inr None \<and>
                  (\<exists>state. stateAt poll j = Inr state \<and> \<not> isTerminal state)"
  shows "waitLoop poll limit k = Some (Inr None)"
proof (induction "nat (limit - (clockAt poll k - startTime poll))" arbitrary: k
    rule: less_induct)
  case less
  show ?case
  proof (cases "clockAt poll k - startTime poll < limit")
    case False
    then show ?thesis by (subst waitLoop.simps) simp
  next
    case True
    from quiet [OF True] obtain state where q: "resultAt poll k = Inr None"
      "stateAt poll k = Inr state" "\<not> isTerminal state"
      by auto
    have "nat (limit - (clockAt poll (Suc k) - startTime poll))
        < nat (limit - (clockAt poll k - startTime poll))"
      using adv [of k] True by linarith
    from less [OF this] show ?thesis
      using True q by (subst waitLoop.simps) simp
  qed
qed

text \<open>
  Claim C9. Suppose no result record and no terminal session state appears within the
  timeout (each poll inside it finds neither), the clock advances by the 500 ms sleep
  between polls, and the other calls \<open>run\<close> makes do not throw. Then \<open>waitForResult\<close>
  returns \<open>null\<close>, and \<open>run\<close> returns, without an error, a result whose \<open>result\<close> is
  \<open>null\<close> and whose usage is zero-filled (with duration 0 and exit code 0).
\<close>

theorem run_timeout:
  assumes "\<And>j. clockAt (polls world) j + 500 \<le> clockAt (polls world) (Suc j)"
    and "\<And>j. clockAt (polls world) j - startTime (polls world) <
               (case timeoutMs options of None \<Rightarrow> DEFAULT_RUN_TIMEOUT_MS | Some t \<Rightarrow> t) \<Longrightarrow>
             resultAt (polls world) j = Inr None \<and>
             (\<exists>state. stateAt (polls world) j = Inr state \<and> \<not> isTerminal state)"
    and "initializeOutcome world = None" and "getContainerOutcome world = Inr assignment"
    and "subscribeOutcome world = None" and "sendInputOutcome world = None"
    and "stateAfter world = Inr state" and "onResultOutcome world = None"
    and "unsubscribeOutcome world = None"
  shows "waitForResult (polls world)
           (case timeoutMs options of None \<Rightarrow> DEFAULT_RUN_TIMEOUT_MS | Some t \<Rightarrow> t) =
           Some (Inr None) \<and>
         (\<exists>r. run isInitialized world options = Some (Inr r) \<and> result r = None \<and>
              usage r = \<lparr>input_tokens = 0, output_tokens = 0\<rparr> \<and> duration_ms r = 0 \<and>
              exit_code r = 0)"
proof -
  have w: "waitForResult (polls world)
           (case timeoutMs options of None \<Rightarrow> DEFAULT_RUN_TIMEOUT_MS | Some t \<Rightarrow> t) =
           Some (Inr None)"
    unfolding waitForResult_def by (rule waitLoop_timeout [OF assms(1) assms(2)])
  have "\<exists>r. runBody world options = Some (Inr r) \<and> result r = None \<and>
              usage r = \<lparr>input_tokens = 0, output_tokens = 0\<rparr> \<and> duration_ms r = 0 \<and>
              exit_code r = 0"
    using w assms(6-8) by (auto simp: runBody_def Let_def split: option.splits)
  then show ?thesis
    using w assms(3-5) assms(9) by (auto simp: run_def)
qed

theorem run_timeout_witness:
  "(\<forall>j. clockAt (polls silentEnv) j + 500 \<le> clockAt (polls silentEnv) (Suc j)) \<and>
   (\<forall>j. resultAt (polls silentEnv) j = Inr None \<and>
        stateAt (polls silentEnv) j = Inr (Some exampleState)) \<and>
   \<not> isTerminal (Some exampleState) \<and>
   waitForResult (polls silentEnv) 200 = Some (Inr None) \<and>
   (\<exists>r. run False silentEnv \<lparr>timeoutMs = Some 200, hasOnOutput = True, hasOnResult = True\<rparr> =
          Some (Inr r) \<and>
        result r = None \<and> usage r = \<lparr>input_tokens = 0, output_tokens = 0\<rparr> \<and>
        duration_ms r = 0 \<and> exit_code r = 0)"
proof -
  let ?options = "\<lparr>timeoutMs = Some 200, hasOnOutput = True, hasOnResult = True\<rparr>"
  have h1: "\<And>j. clockAt (polls silentEnv) j + 500 \<le> clockAt (polls silentEnv) (Suc j)"
    by (simp add: silentEnv_def silentPoll_def)
  have nt: "\<not> isTerminal (Some exampleState)"
    by (simp add: isTerminal_def exampleState_def)
  have q: "\<And>j. resultAt (polls silentEnv) j = Inr None \<and>
        stateAt (polls silentEnv) j = Inr (Some exampleState)"
    by (simp add: silentEnv_def silentPoll_def)
  have h2: "\<And>j. clockAt (polls silentEnv) j - startTime (polls silentEnv) <
               (case timeoutMs ?options of None \<Rightarrow> DEFAULT_RUN_TIMEOUT_MS | Some t \<Rightarrow> t) \<Longrightarrow>
             resultAt (polls silentEnv) j = Inr None \<and>
             (\<exists>state. stateAt (polls silentEnv) j = Inr state \<and> \<not> isTerminal state)"
    using q nt by blast
  have h3: "initializeOutcome silentEnv = None" "subscribeOutcome silentEnv = None"
    "sendInputOutcome silentEnv = None" "stateAfter silentEnv = Inr (Some exampleState)"
    "onResultOutcome silentEnv = None" "unsubscribeOutcome silentEnv = None"
    by (simp_all add: silentEnv_def)
  have h4: "getContainerOutcome silentEnv =
      Inr \<lparr>assignedName = ''clawdbot-cc-s1-e5d'', assignedId = ''4f2a90c1'', isNew = False,
           wasWarm = False\<rparr>"
    by (simp add: silentEnv_def)
  from run_timeout [of silentEnv ?options, OF h1 h2 h3(1) h4 h3(2) h3(3) h3(4) h3(5) h3(6),
      of False]
  show ?thesis
    using h1 q nt by simp
qed

section \<open>Properties of the pool manager\<close>

text \<open>
  The first step of \<open>getContainer\<close> never asks Docker: a cached container is returned
  whatever its runtime state, and the world is left as it was.
\<close>

lemma getContainer_cached:
  "sessionToContainer (poolState w) (p_sessionKey params) = Some name \<Longrightarrow> name \<noteq> [] \<Longrightarrow>
   map_of (containers (poolState w)) name = Some entry \<Longrightarrow>
   getContainer api config now params w =
     (Inr \<lparr>assignedName = name, assignedId = containerId entry, isNew = False,
           wasWarm = False\<rparr>, w)"
  by (simp add: getContainer_def)

text \<open>
  Claim C6 fails on the code. The manager's maps hold the container of session \<open>s1\<close>,
  Docker reports that this container does not exist, and \<open>getContainer\<close> still returns it
  as the assignment.
\<close>

theorem getContainer_returns_dead_container:
  "getContainerState emptyDocker (dockerDaemon assignedWorld) ''clawdbot-cc-s1-e5d'' =
     Inr \<lparr>state_exists = False, state_running = False\<rparr> \<and>
   getContainer emptyDocker DEFAULT_DOCKER_CC_CONFIG 9000 s1Params assignedWorld =
     (Inr \<lparr>assignedName = ''clawdbot-cc-s1-e5d'', assignedId = ''4f2a90c1'', isNew = False,
           wasWarm = False\<rparr>, assignedWorld)"
  by (simp add: getContainer_def emptyDocker_def assignedWorld_def assignedState_def
      assignedEntry_def s1Params_def)

subsection \<open>What the registry functions do to the entries read\<close>

lemma mutateFirst_none: "find p es = None \<Longrightarrow> mutateFirst p f es = es"
  by (induction es) (auto split: if_splits)

lemma find_by_None: "(find (\<lambda>e. g e = n) es = None) = (n \<notin> g ` set es)"
  by (induction es) auto

lemma registryEntries_read: "readRegistry d = Inr registry \<Longrightarrow> registryEntries d = entries registry"
  by (simp add: registryEntries_def)

lemma registryEntries_write:
  "readRegistry d = Inr registry \<Longrightarrow> writeRegistry d (registry\<lparr>entries := es\<rparr>) = Inr d' \<Longrightarrow>
   registryEntries d' = es"
  by (auto simp: registryEntries_def writeRegistry_def readRegistry_def REGISTRY_VERSION_def
      split: if_splits RegistryFile.splits)

lemma entries_updateContainerStatus:
  "updateContainerStatus d n s now = Inr d' \<Longrightarrow>
   registryEntries d' =
     mutateFirst (\<lambda>e. containerName e = n) (\<lambda>entry. entry\<lparr>status := s, lastHeartbeat := now\<rparr>)
       (registryEntries d)"
  by (auto simp: updateContainerStatus_def registryEntries_read mutateFirst_none
      dest: registryEntries_write split: sum.splits option.splits)

lemma entries_assignContainerToSession:
  "assignContainerToSession d n k a now = Inr d' \<Longrightarrow>
   registryEntries d' =
     mutateFirst (\<lambda>e. containerName e = n)
       (\<lambda>entry. entry\<lparr>sessionKey := Some k, agentId := a, lastHeartbeat := now\<rparr>)
       (registryEntries d)"
  by (auto simp: assignContainerToSession_def registryEntries_read mutateFirst_none
      dest: registryEntries_write split: sum.splits option.splits)

lemma entries_unassignContainer:
  "unassignContainer d n now = Inr d' \<Longrightarrow>
   registryEntries d' =
     mutateFirst (\<lambda>e. containerName e = n)
       (\<lambda>entry. entry\<lparr>sessionKey := None, agentId := None, claudeSessionId := None,
                       turnCount := 0, status := Idle, lastHeartbeat := now\<rparr>)
       (registryEntries d)"
  by (auto simp: unassignContainer_def registryEntries_read mutateFirst_none
      dest: registryEntries_write split: sum.splits option.splits)

lemma entries_removeContainerEntry:
  "removeContainerEntry d n = Inr d' \<Longrightarrow>
   registryEntries d' = filter (\<lambda>e. containerName e \<noteq> n) (registryEntries d)"
  by (auto simp: removeContainerEntry_def registryEntries_read
      dest: registryEntries_write split: sum.splits)

lemma entries_syncWithDocker:
  "syncWithDocker d names = Inr (d', removed) \<Longrightarrow>
   registryEntries d' = filter (\<lambda>e. containerName e \<in> names) (registryEntries d)"
proof -
  assume a: "syncWithDocker d names = Inr (d', removed)"
  then obtain registry where rd: "readRegistry d = Inr registry"
    by (auto simp: syncWithDocker_def split: sum.splits)
  show ?thesis
  proof (cases "filter (\<lambda>e. containerName e \<notin> names) (entries registry) = []")
    case True
    then have "filter (\<lambda>e. containerName e \<in> names) (entries registry) = entries registry"
      by (induction "entries registry") (auto simp: filter_empty_conv)
    moreover have "d' = d" using a rd True by (simp add: syncWithDocker_def Let_def)
    ultimately show ?thesis by (simp add: registryEntries_read [OF rd])
  next
    case False
    then have "writeRegistry d
        (registry\<lparr>entries := filter (\<lambda>e. containerName e \<in> names) (entries registry)\<rparr>) = Inr d'"
      using a rd by (auto simp: syncWithDocker_def Let_def split: sum.splits)
    from registryEntries_write [OF rd this] show ?thesis
      by (simp add: registryEntries_read [OF rd])
  qed
qed

lemma entries_updateContainerEntry:
  "updateContainerEntry d entry = Inr d' \<Longrightarrow>
   registryEntries d' =
     (if containerName entry \<in> containerName ` set (registryEntries d)
      then mutateFirst (\<lambda>e. containerName e = containerName entry) (\<lambda>_. entry) (registryEntries d)
      else registryEntries d @ [entry])"
proof -
  assume a: "updateContainerEntry d entry = Inr d'"
  then obtain registry where rd: "readRegistry d = Inr registry"
    by (auto simp: updateContainerEntry_def split: sum.splits)
  have f: "(find (\<lambda>e. containerName e = containerName entry) (entries registry) = None) =
           (containerName entry \<notin> containerName ` set (entries registry))"
    by (rule find_by_None)
  show ?thesis
    using a rd f
    by (auto simp: updateContainerEntry_def registryEntries_read [OF rd]
        dest: registryEntries_write [OF rd] split: option.splits)
qed

lemma entries_listWarmContainers:
  "listWarmContainers d = Inr ws \<Longrightarrow>
   ws = filter (\<lambda>e. sessionKey e = None \<and> status e = Idle) (registryEntries d)"
  by (auto simp: listWarmContainers_def registryEntries_read split: sum.splits)

lemma entries_getContainerBySessionKey:
  "getContainerBySessionKey d k = Inr (Some e) \<Longrightarrow>
   e \<in> set (registryEntries d) \<and> sessionKey e = Some k"
  by (auto simp: getContainerBySessionKey_def registryEntries_read find_Some_iff
      split: sum.splits)

lemma entries_listContainerEntries:
  "listContainerEntries d = Inr es \<Longrightarrow> es = registryEntries d"
  by (auto simp: listContainerEntries_def registryEntries_read split: sum.splits)

subsection \<open>Changes that keep the pool state and the registry consistent\<close>

lemma poolInvariant_consistent:
  "poolInvariant w = consistent (poolState w) (registryEntries (registryDisk w))"
  by (simp add: poolInvariant_def consistent_def)

lemma mappedFromKey_iff:
  "mappedFromKey st n =
     (\<exists>e k. map_of (containers st) n = Some e \<and> sessionKey e = Some k \<and>
            sessionToContainer st k = Some n)"
  by (auto simp: mappedFromKey_def split: option.splits)

lemma neverBoth_iff: "neverBoth st = (\<forall>n. mappedFromKey st n \<longrightarrow> n \<notin> warmPool st)"
proof
  assume nb: "neverBoth st"
  show "\<forall>n. mappedFromKey st n \<longrightarrow> n \<notin> warmPool st"
  proof (intro allI impI)
    fix n
    assume m: "mappedFromKey st n"
    then obtain e where "map_of (containers st) n = Some e"
      by (auto simp: mappedFromKey_iff)
    then have "n \<in> fst ` set (containers st)"
      by (metis map_of_eq_None_iff option.distinct(1))
    with nb m show "n \<notin> warmPool st"
      by (auto simp: neverBoth_def list_all_iff)
  qed
next
  assume "\<forall>n. mappedFromKey st n \<longrightarrow> n \<notin> warmPool st"
  then show "neverBoth st"
    by (auto simp: neverBoth_def list_all_iff)
qed

lemma warmUnassigned_iff:
  "warmUnassigned st es = (\<forall>e\<in>set es. sessionKey e = None \<or> containerName e \<notin> warmPool st)"
  by (simp add: warmUnassigned_def list_all_iff)

lemma wellFormedRegistry_iff:
  "wellFormedRegistry es =
     (distinct (map containerName es) \<and> (\<forall>e\<in>set es. sessionKey e \<noteq> Some []))"
  by (simp add: wellFormedRegistry_def list_all_iff)

lemma mutateFirst_names:
  "(\<And>e. containerName (f e) = containerName e) \<Longrightarrow>
   map containerName (mutateFirst p f es) = map containerName es"
  by (induction es) auto

lemma set_mutateFirst:
  "x \<in> set (mutateFirst p f es) \<Longrightarrow> x \<in> set es \<or> (\<exists>e\<in>set es. p e \<and> x = f e)"
  by (induction es) (auto split: if_splits)

lemma set_mutateFirst_distinct:
  "distinct (map containerName es) \<Longrightarrow> x \<in> set (mutateFirst (\<lambda>e. containerName e = n) f es) \<Longrightarrow>
   (x \<in> set es \<and> containerName x \<noteq> n) \<or> (\<exists>e\<in>set es. containerName e = n \<and> x = f e)"
proof (induction es)
  case Nil
  then show ?case by simp
next
  case (Cons a es)
  show ?case
  proof (cases "containerName a = n")
    case True
    with Cons.prems have "x = f a \<or> x \<in> set es" by auto
    moreover have "containerName y \<noteq> n" if "y \<in> set es" for y
      using Cons.prems(1) True that by (force simp: image_iff)
    ultimately show ?thesis using True by auto
  next
    case False
    with Cons show ?thesis by auto
  qed
qed

lemma consistent_shrink:
  assumes "consistent st es"
    and "map_of (containers st') \<subseteq>\<^sub>m map_of (containers st)"
    and "sessionToContainer st' \<subseteq>\<^sub>m sessionToContainer st"
    and "warmPool st' \<subseteq> warmPool st"
  shows "consistent st' es"
proof -
  have "mappedFromKey st n" if "mappedFromKey st' n" for n
  proof -
    from that obtain e k where "map_of (containers st') n = Some e" "sessionKey e = Some k"
      "sessionToContainer st' k = Some n"
      by (auto simp: mappedFromKey_iff)
    with assms(2,3) have "map_of (containers st) n = Some e" "sessionToContainer st k = Some n"
      by (auto simp: map_le_def dom_def)
    then show ?thesis using \<open>sessionKey e = Some k\<close> by (auto simp: mappedFromKey_iff)
  qed
  then show ?thesis
    using assms(1,4) by (auto simp: consistent_def neverBoth_iff warmUnassigned_iff)
qed

lemma consistent_filter: "consistent st es \<Longrightarrow> consistent st (filter P es)"
  by (auto simp: consistent_def warmUnassigned_iff wellFormedRegistry_iff distinct_map_filter)

lemma consistent_touch:
  assumes "consistent st es"
    and "\<And>e. containerName (f e) = containerName e \<and> sessionKey (f e) = sessionKey e"
  shows "consistent st (mutateFirst p f es)"
proof -
  have "\<exists>e\<in>set es. containerName e = containerName x \<and> sessionKey e = sessionKey x"
    if "x \<in> set (mutateFirst p f es)" for x
    using set_mutateFirst [OF that] assms(2) by auto
  then show ?thesis
    using assms by (simp add: consistent_def warmUnassigned_iff wellFormedRegistry_iff
        mutateFirst_names) metis
qed

lemma consistent_adopt:
  assumes "consistent st es" and "e \<in> set es" and "sessionKey e = Some k"
    and "containers st' = AList.update (containerName e) e (containers st)"
    and "sessionToContainer st' = (sessionToContainer st)(k \<mapsto> containerName e)"
    and "warmPool st' = warmPool st"
  shows "consistent st' es"
proof -
  have nw: "containerName e \<notin> warmPool st"
    using assms(1-3) by (auto simp: consistent_def warmUnassigned_iff)
  have "n \<notin> warmPool st" if "mappedFromKey st' n" for n
  proof (cases "n = containerName e")
    case True
    then show ?thesis using nw by simp
  next
    case False
    from that obtain e' k' where m: "map_of (containers st') n = Some e'"
      "sessionKey e' = Some k'" "sessionToContainer st' k' = Some n"
      by (auto simp: mappedFromKey_iff)
    have "k' \<noteq> k" using m(3) False by (auto simp: assms(5))
    then have "mappedFromKey st n"
      using m False by (auto simp: mappedFromKey_iff assms(4,5) update_conv')
    then show ?thesis using assms(1) by (auto simp: consistent_def neverBoth_iff)
  qed
  then show ?thesis
    using assms(1,6) by (auto simp: consistent_def neverBoth_iff warmUnassigned_iff)
qed

lemma consistent_assign:
  assumes "consistent st es" and "k \<noteq> []"
    and "containers st' = AList.update n entry (containers st)"
    and "sessionToContainer st' = (sessionToContainer st)(k \<mapsto> n)"
    and "warmPool st' = warmPool st - {n}"
    and "\<And>e. containerName (f e) = containerName e \<and> sessionKey (f e) = Some k"
  shows "consistent st' (mutateFirst (\<lambda>e. containerName e = n) f es)"
proof -
  have d: "distinct (map containerName es)"
    using assms(1) by (simp add: consistent_def wellFormedRegistry_iff)
  have "n' \<notin> warmPool st'" if "mappedFromKey st' n'" for n'
  proof (cases "n' = n")
    case True
    then show ?thesis by (simp add: assms(5))
  next
    case False
    from that obtain e' k' where m: "map_of (containers st') n' = Some e'"
      "sessionKey e' = Some k'" "sessionToContainer st' k' = Some n'"
      by (auto simp: mappedFromKey_iff)
    have "k' \<noteq> k" using m(3) False by (auto simp: assms(4))
    then have "mappedFromKey st n'"
      using m False by (auto simp: mappedFromKey_iff assms(3,4) update_conv')
    then show ?thesis using assms(1) by (auto simp: consistent_def neverBoth_iff assms(5))
  qed
  moreover have "sessionKey x = None \<or> containerName x \<notin> warmPool st'"
    if "x \<in> set (mutateFirst (\<lambda>e. containerName e = n) f es)" for x
    using set_mutateFirst_distinct [OF d that] assms(1,6)
    by (auto simp: consistent_def warmUnassigned_iff assms(5))
  moreover have "sessionKey x \<noteq> Some []"
    if "x \<in> set (mutateFirst (\<lambda>e. containerName e = n) f es)" for x
    using set_mutateFirst [OF that] assms(1,2,6)
    by (auto simp: consistent_def wellFormedRegistry_iff)
  ultimately show ?thesis
    using d assms(6) by (simp add: consistent_def neverBoth_iff warmUnassigned_iff
        wellFormedRegistry_iff mutateFirst_names)
qed

lemma set_replace_or_append:
  assumes "distinct (map containerName es)" and "containerName entry = n"
    and "x \<in> set (if n \<in> containerName ` set es
                   then mutateFirst (\<lambda>e. containerName e = n) (\<lambda>_. entry) es
                   else es @ [entry])"
  shows "(x \<in> set es \<and> containerName x \<noteq> n) \<or> x = entry"
proof (cases "n \<in> containerName ` set es")
  case True
  with assms(3) have "x \<in> set (mutateFirst (\<lambda>e. containerName e = n) (\<lambda>_. entry) es)"
    by simp
  from set_mutateFirst_distinct [OF assms(1) this] show ?thesis by auto
next
  case False
  with assms(3) show ?thesis by (force simp: image_iff)
qed

lemma names_replace_or_append:
  assumes "distinct (map containerName es)" and "containerName entry = n"
  shows "distinct (map containerName
           (if n \<in> containerName ` set es
            then mutateFirst (\<lambda>e. containerName e = n) (\<lambda>_. entry) es
            else es @ [entry]))"
proof (cases "n \<in> containerName ` set es")
  case True
  have "map containerName (mutateFirst (\<lambda>e. containerName e = n) (\<lambda>_. entry) es) =
        map containerName es"
    using assms(2) by (induction es) auto
  then show ?thesis using True assms(1) by simp
next
  case False
  then show ?thesis using assms by simp
qed

lemma consistent_create:
  assumes "consistent st es" and "sessionKey entry = Some k" and "k \<noteq> []"
    and "containerName entry = n" and "n \<notin> warmPool st"
    and "containers st' = AList.update n entry (containers st)"
    and "sessionToContainer st' = (sessionToContainer st)(k \<mapsto> n)"
    and "warmPool st' = warmPool st"
  shows "consistent st'
           (if n \<in> containerName ` set es
            then mutateFirst (\<lambda>e. containerName e = n) (\<lambda>_. entry) es
            else es @ [entry])"
proof -
  have d: "distinct (map containerName es)"
    using assms(1) by (simp add: consistent_def wellFormedRegistry_iff)
  have "n' \<notin> warmPool st'" if "mappedFromKey st' n'" for n'
  proof (cases "n' = n")
    case True
    then show ?thesis using assms(5,8) by simp
  next
    case False
    from that obtain e' k' where m: "map_of (containers st') n' = Some e'"
      "sessionKey e' = Some k'" "sessionToContainer st' k' = Some n'"
      by (auto simp: mappedFromKey_iff)
    have "k' \<noteq> k" using m(3) False by (auto simp: assms(7))
    then have "mappedFromKey st n'"
      using m False by (auto simp: mappedFromKey_iff assms(6,7) update_conv')
    then show ?thesis using assms(1) by (auto simp: consistent_def neverBoth_iff assms(8))
  qed
  moreover have "(sessionKey x = None \<or> containerName x \<notin> warmPool st') \<and>
      sessionKey x \<noteq> Some []"
    if "x \<in> set (if n \<in> containerName ` set es
                   then mutateFirst (\<lambda>e. containerName e = n) (\<lambda>_. entry) es
                   else es @ [entry])" for x
    using set_replace_or_append [OF d assms(4) that] assms(1-5,8)
    by (auto simp: consistent_def warmUnassigned_iff wellFormedRegistry_iff)
  ultimately show ?thesis
    using names_replace_or_append [OF d assms(4)]
    by (simp add: consistent_def neverBoth_iff warmUnassigned_iff wellFormedRegistry_iff)
qed

lemma consistent_createWarm:
  assumes "consistent st es" and "sessionKey entry = None" and "containerName entry = n"
    and "containers st' = AList.update n entry (containers st)"
    and "sessionToContainer st' = sessionToContainer st"
    and "warmPool st' = insert n (warmPool st)"
  shows "consistent st'
           (if n \<in> containerName ` set es
            then mutateFirst (\<lambda>e. containerName e = n) (\<lambda>_. entry) es
            else es @ [entry])"
proof -
  have d: "distinct (map containerName es)"
    using assms(1) by (simp add: consistent_def wellFormedRegistry_iff)
  have "n' \<notin> warmPool st'" if "mappedFromKey st' n'" for n'
  proof (cases "n' = n")
    case True
    with that assms(2,4) show ?thesis by (auto simp: mappedFromKey_iff update_conv')
  next
    case False
    with that have "mappedFromKey st n'"
      by (auto simp: mappedFromKey_iff assms(4,5) update_conv')
    then show ?thesis using assms(1) False by (auto simp: consistent_def neverBoth_iff assms(6))
  qed
  moreover have "(sessionKey x = None \<or> containerName x \<notin> warmPool st') \<and>
      sessionKey x \<noteq> Some []"
    if "x \<in> set (if n \<in> containerName ` set es
                   then mutateFirst (\<lambda>e. containerName e = n) (\<lambda>_. entry) es
                   else es @ [entry])" for x
    using set_replace_or_append [OF d assms(3) that] assms(1,2,6)
    by (auto simp: consistent_def warmUnassigned_iff wellFormedRegistry_iff)
  ultimately show ?thesis
    using names_replace_or_append [OF d assms(3)]
    by (simp add: consistent_def neverBoth_iff warmUnassigned_iff wellFormedRegistry_iff)
qed

lemma consistent_release:
  assumes "consistent st es"
    and "containers st' =
           (case map_of (containers st) n of
              None \<Rightarrow> containers st
            | Some entry \<Rightarrow>
                AList.update n (entry\<lparr>sessionKey := None, agentId := None, status := Idle\<rparr>)
                  (containers st))"
    and "sessionToContainer st' = sessionToContainer st"
    and "warmPool st' = insert n (warmPool st)"
    and "\<And>e. containerName (f e) = containerName e \<and> sessionKey (f e) = None"
  shows "consistent st' (mutateFirst (\<lambda>e. containerName e = n) f es)"
proof -
  have d: "distinct (map containerName es)"
    using assms(1) by (simp add: consistent_def wellFormedRegistry_iff)
  have "n' \<notin> warmPool st'" if "mappedFromKey st' n'" for n'
  proof (cases "n' = n")
    case True
    with that show ?thesis
      by (auto simp: mappedFromKey_iff assms(2) update_conv' split: option.splits)
  next
    case False
    with that have "mappedFromKey st n'"
      by (auto simp: mappedFromKey_iff assms(2,3) update_conv' split: option.splits)
    then show ?thesis using assms(1) False by (auto simp: consistent_def neverBoth_iff assms(4))
  qed
  moreover have "(sessionKey x = None \<or> containerName x \<notin> warmPool st') \<and>
      sessionKey x \<noteq> Some []"
    if "x \<in> set (mutateFirst (\<lambda>e. containerName e = n) f es)" for x
    using set_mutateFirst_distinct [OF d that] assms(1,5)
    by (auto simp: consistent_def warmUnassigned_iff wellFormedRegistry_iff assms(4))
  ultimately show ?thesis
    using d assms(5)
    by (simp add: consistent_def neverBoth_iff warmUnassigned_iff wellFormedRegistry_iff
        mutateFirst_names)
qed

lemma rebuildState_warm:
  "n \<in> warmPool (rebuildState es st) \<Longrightarrow>
   n \<in> warmPool st \<or>
   (\<exists>e\<in>set es. containerName e = n \<and> (sessionKey e = None \<or> sessionKey e = Some []))"
proof (induction es arbitrary: st)
  case Nil
  then show ?case by simp
next
  case (Cons a es)
  from Cons.IH [OF Cons.prems [simplified]] show ?case
    by (auto simp: Let_def split: option.splits if_splits)
qed

lemma rebuildState_containers:
  "map_of (containers (rebuildState es st)) n = Some e \<Longrightarrow>
   map_of (containers st) n = Some e \<or> (e \<in> set es \<and> containerName e = n)"
proof (induction es arbitrary: st)
  case Nil
  then show ?case by simp
next
  case (Cons a es)
  from Cons.IH [OF Cons.prems [simplified]] show ?case
    by (auto simp: Let_def update_conv' split: option.splits if_splits)
qed

lemma consistent_rebuild:
  assumes "wellFormedRegistry es"
  shows "consistent (rebuildState es emptyPoolState) es"
proof -
  let ?st = "rebuildState es emptyPoolState"
  have d: "distinct (map containerName es)" and ne: "\<And>e. e \<in> set es \<Longrightarrow> sessionKey e \<noteq> Some []"
    using assms by (auto simp: wellFormedRegistry_iff)
  have same: "x = y" if "x \<in> set es" "y \<in> set es" "containerName x = containerName y" for x y
    using d that by (meson distinct_map inj_onD)
  have warm: "\<exists>e\<in>set es. containerName e = n \<and> sessionKey e = None" if "n \<in> warmPool ?st" for n
    using rebuildState_warm [OF that] ne by (auto simp: emptyPoolState_def)
  have "n \<notin> warmPool ?st" if "mappedFromKey ?st n" for n
  proof
    assume "n \<in> warmPool ?st"
    from warm [OF this] obtain e' where e': "e' \<in> set es" "containerName e' = n"
      "sessionKey e' = None"
      by auto
    from that obtain e k where "map_of (containers ?st) n = Some e" "sessionKey e = Some k"
      by (auto simp: mappedFromKey_iff)
    with rebuildState_containers [of es emptyPoolState n e]
    have "e \<in> set es" "containerName e = n" "sessionKey e = Some k"
      by (auto simp: emptyPoolState_def)
    with e' same [of e e'] show False by auto
  qed
  moreover have "sessionKey x = None \<or> containerName x \<notin> warmPool ?st" if "x \<in> set es" for x
  proof (cases "containerName x \<in> warmPool ?st")
    case True
    from warm [OF this] obtain e' where "e' \<in> set es" "containerName e' = containerName x"
      "sessionKey e' = None"
      by auto
    with same [of e' x] that show ?thesis by auto
  next
    case False
    then show ?thesis by simp
  qed
  ultimately show ?thesis
    using assms by (simp add: consistent_def neverBoth_iff warmUnassigned_iff)
qed

subsection \<open>Every operation keeps the invariant\<close>

lemma poolInvariant_docker [simp]: "poolInvariant (w\<lparr>dockerDaemon := d\<rparr>) = poolInvariant w"
  by (simp add: poolInvariant_def)

lemma poolInvariant_running [simp]: "poolInvariant (w\<lparr>managerRunning := b\<rparr>) = poolInvariant w"
  by (simp add: poolInvariant_def)

lemma inv_destroyContainer:
  assumes "poolInvariant w"
  shows "poolInvariant (snd (destroyContainer api name w)) \<and>
         poolState (snd (destroyContainer api name w)) = poolState w"
proof -
  have "poolInvariant (w\<lparr>dockerDaemon := d', registryDisk := disk'\<rparr>)"
    if "removeContainerEntry (registryDisk w) name = Inr disk'" for d' disk'
    using assms consistent_filter entries_removeContainerEntry [OF that]
    by (simp add: poolInvariant_consistent)
  then show ?thesis
    using assms
    by (auto simp: destroyContainer_def split: prod.splits option.splits sum.splits)
qed

lemma inv_shrink:
  assumes "poolInvariant w"
    and "map_of (containers st') \<subseteq>\<^sub>m map_of (containers (poolState w))"
    and "sessionToContainer st' \<subseteq>\<^sub>m sessionToContainer (poolState w)"
    and "warmPool st' \<subseteq> warmPool (poolState w)"
  shows "poolInvariant (w\<lparr>poolState := st'\<rparr>)"
  using consistent_shrink [OF assms(1) [unfolded poolInvariant_consistent] assms(2-4)]
  by (simp add: poolInvariant_consistent)

lemma map_of_delete_le: "map_of (AList.delete n al) \<subseteq>\<^sub>m map_of al"
  by (simp add: delete_conv' map_le_def)

lemma map_forget_le: "m(k := None) \<subseteq>\<^sub>m m"
  by (simp add: map_le_def)

lemma inv_removeContainerByName:
  assumes "poolInvariant w"
  shows "poolInvariant (snd (removeContainerByName api name w))"
proof -
  define st1 where "st1 =
      (case map_of (containers (poolState w)) name of
         None \<Rightarrow> poolState w
       | Some entry \<Rightarrow>
           (case sessionKey entry of
              None \<Rightarrow> poolState w
            | Some k \<Rightarrow>
                if k \<noteq> [] then (poolState w)
                     \<lparr>sessionToContainer := (sessionToContainer (poolState w))(k := None)\<rparr>
                else poolState w))"
  define st2 where "st2 = st1\<lparr>warmPool := warmPool st1 - {name},
                    containers := AList.delete name (containers st1)\<rparr>"
  have c1: "containers st1 = containers (poolState w)" "warmPool st1 = warmPool (poolState w)"
    by (auto simp: st1_def split: option.splits)
  have m1: "sessionToContainer st1 \<subseteq>\<^sub>m sessionToContainer (poolState w)"
    by (auto simp: st1_def map_forget_le split: option.splits)
  have "poolInvariant (w\<lparr>poolState := st2\<rparr>)"
    using assms
  proof (rule inv_shrink)
    show "map_of (containers st2) \<subseteq>\<^sub>m map_of (containers (poolState w))"
      by (simp add: st2_def c1 map_of_delete_le)
    show "sessionToContainer st2 \<subseteq>\<^sub>m sessionToContainer (poolState w)"
      using m1 by (simp add: st2_def)
    show "warmPool st2 \<subseteq> warmPool (poolState w)"
      by (auto simp: st2_def c1)
  qed
  from inv_destroyContainer [OF this, of api name] show ?thesis
    by (simp add: removeContainerByName_def Let_def st2_def st1_def)
qed

lemma inv_removeContainers: "poolInvariant w \<Longrightarrow> poolInvariant (snd (removeContainers api cs w))"
proof (induction cs arbitrary: w)
  case Nil
  then show ?case by simp
next
  case (Cons c cs)
  from Cons.prems have "poolInvariant (snd (removeContainerByName api (containerName c) w))"
    by (rule inv_removeContainerByName)
  with Cons.IH show ?case
    by (auto split: prod.splits sum.splits)
qed

lemma inv_createWarmContainer:
  assumes "poolInvariant w"
  shows "poolInvariant (snd (createWarmContainer api now suffix w))"
proof -
  obtain r d where c: "createAndStartContainer api (dockerDaemon w)
             \<lparr>opt_sessionKey = ''warm-'' @ suffix, opt_agentId = None,
              opt_workspaceDir = ''/tmp/clawdbot-warm'', opt_claudeConfig = None\<rparr> = (r, d)"
    by (cases "createAndStartContainer api (dockerDaemon w)
             \<lparr>opt_sessionKey = ''warm-'' @ suffix, opt_agentId = None,
              opt_workspaceDir = ''/tmp/clawdbot-warm'', opt_claudeConfig = None\<rparr>") auto
  show ?thesis
  proof (cases r)
    case (Inl e)
    with c assms show ?thesis by (simp add: createWarmContainer_def)
  next
    case (Inr created)
    define entry where "entry =
        \<lparr>containerId = created_id created, containerName = created_name created,
         sessionKey = None, agentId = None, status = Idle, createdAt = now,
         lastHeartbeat = now, claudeSessionId = None, turnCount = 0, configHash = []\<rparr>"
    have n: "sessionKey entry = None" "containerName entry = created_name created"
      by (simp_all add: entry_def)
    show ?thesis
    proof (cases "updateContainerEntry (registryDisk w) entry")
      case (Inl e)
      with c Inr assms show ?thesis
        by (simp add: createWarmContainer_def entry_def [symmetric])
    next
      case (Inr disk')
      define st' where "st' = (poolState w)
           \<lparr>containers := AList.update (created_name created) entry (containers (poolState w)),
            warmPool := insert (created_name created) (warmPool (poolState w))\<rparr>"
      have eq: "registryEntries disk' =
          (if created_name created \<in> containerName ` set (registryEntries (registryDisk w))
           then mutateFirst (\<lambda>e. containerName e = created_name created) (\<lambda>_. entry)
                  (registryEntries (registryDisk w))
           else registryEntries (registryDisk w) @ [entry])"
        using entries_updateContainerEntry [OF Inr] by (simp only: n(2))
      have "consistent st' (registryEntries disk')"
        unfolding eq
        by (rule consistent_createWarm [OF assms [unfolded poolInvariant_consistent] n])
          (simp_all add: st'_def)
      then show ?thesis
        using c \<open>r = Inr created\<close> Inr
        by (simp add: createWarmContainer_def entry_def [symmetric] st'_def [symmetric]
            poolInvariant_consistent)
    qed
  qed
qed

lemma inv_warmLoop:
  "poolInvariant w \<Longrightarrow> poolInvariant (warmLoop api now suffixes n i w)"
proof (induction n arbitrary: i w)
  case 0
  then show ?case by simp
next
  case (Suc n)
  from Suc.prems have "poolInvariant (snd (createWarmContainer api now (suffixes i) w))"
    by (rule inv_createWarmContainer)
  from Suc.IH [OF this] show ?case by simp
qed

lemma inv_ensureWarmPool:
  "poolInvariant w \<Longrightarrow> poolInvariant (snd (ensureWarmPool api config now suffixes w))"
  by (simp add: ensureWarmPool_def Let_def inv_warmLoop)

lemma inv_syncState:
  assumes "poolInvariant w"
  shows "poolInvariant (snd (syncState api w))"
proof -
  have a: "poolInvariant (w\<lparr>registryDisk := disk'\<rparr>)"
    if "syncWithDocker (registryDisk w) names = Inr (disk', removed)" for disk' names removed
    using assms consistent_filter entries_syncWithDocker [OF that]
    by (simp add: poolInvariant_consistent)
  have b: "poolInvariant (w\<lparr>registryDisk := disk', poolState := rebuildState es emptyPoolState\<rparr>)"
    if "syncWithDocker (registryDisk w) names = Inr (disk', removed)"
      "listContainerEntries disk' = Inr es" for disk' names removed es
  proof -
    have "wellFormedRegistry (registryEntries disk')"
      using a [OF that(1)] by (simp add: poolInvariant_def)
    from consistent_rebuild [OF this] entries_listContainerEntries [OF that(2)]
    show ?thesis by (simp add: poolInvariant_consistent)
  qed
  show ?thesis
    using assms a b
    by (auto simp: syncState_def split: sum.splits prod.splits)
qed

lemma inv_start:
  assumes "poolInvariant w"
  shows "poolInvariant (snd (start api config now suffixes w))"
proof -
  have "poolInvariant (snd (syncState api w))"
    using assms by (rule inv_syncState)
  then have "poolInvariant
      (snd (ensureWarmPool api config now suffixes
              ((snd (syncState api w))\<lparr>managerRunning := True\<rparr>)))"
    by (intro inv_ensureWarmPool) simp
  then show ?thesis
    using assms \<open>poolInvariant (snd (syncState api w))\<close>
    by (auto simp: start_def split: prod.splits sum.splits)
qed

lemma inv_healthLoop:
  "poolInvariant w \<Longrightarrow> poolInvariant (snd (healthLoop api now cs w))"
proof (induction cs arbitrary: w)
  case Nil
  then show ?case by simp
next
  case (Cons c cs)
  have r: "poolInvariant (snd (removeContainerByName api (containerName c) w))"
    using Cons.prems by (rule inv_removeContainerByName)
  have f: "poolInvariant
      (w\<lparr>registryDisk := disk',
         poolState :=
           (case sessionKey c of
              None \<Rightarrow> poolState w
            | Some k \<Rightarrow>
                if k \<noteq> [] then (poolState w)
                     \<lparr>sessionToContainer := (sessionToContainer (poolState w))(k := None)\<rparr>
                else poolState w)\<rparr>)"
    if "updateContainerStatus (registryDisk w) (containerName c) Failed now = Inr disk'"
    for disk'
  proof -
    have "poolInvariant (w\<lparr>registryDisk := disk'\<rparr>)"
      using Cons.prems entries_updateContainerStatus [OF that]
        consistent_touch [of "poolState w" "registryEntries (registryDisk w)"
          "\<lambda>entry. entry\<lparr>status := Failed, lastHeartbeat := now\<rparr>"
          "\<lambda>e. containerName e = containerName c"]
      by (simp add: poolInvariant_consistent)
    from inv_shrink [OF this, of "case sessionKey c of
              None \<Rightarrow> poolState w
            | Some k \<Rightarrow>
                if k \<noteq> [] then (poolState w)
                     \<lparr>sessionToContainer := (sessionToContainer (poolState w))(k := None)\<rparr>
                else poolState w"]
    show ?thesis
      by (auto simp: map_forget_le split: option.splits)
  qed
  show ?case
    using Cons.prems r f Cons.IH
    by (auto split: prod.splits sum.splits)
qed

lemma inv_checkHealth:
  "poolInvariant w \<Longrightarrow> poolInvariant (snd (checkHealth api config now w))"
  by (auto simp: checkHealth_def inv_healthLoop split: sum.splits)

lemma inv_maintenance:
  assumes "poolInvariant w"
  shows "poolInvariant (snd (maintenance api config now suffixes w))"
proof (cases "managerRunning w")
  case False
  with assms show ?thesis by (simp add: maintenance_def)
next
  case True
  show ?thesis
  proof (cases "getIdleContainers (registryDisk w) (idleMs (timeouts config)) now")
    case (Inl e)
    with True assms show ?thesis by (simp add: maintenance_def)
  next
    case (Inr idleContainers)
    define toRemove where "toRemove =
        drop (nat (max 0 (minWarm (pool config) - int (card (warmPool (poolState w))))))
          (sort_key lastHeartbeat idleContainers)"
    obtain r1 w1 where s1: "removeContainers api toRemove w = (r1, w1)"
      by (cases "removeContainers api toRemove w") auto
    have i1: "poolInvariant w1"
      using inv_removeContainers [OF assms, of api toRemove] by (simp add: s1)
    show ?thesis
    proof (cases r1)
      case (Inl e)
      with True Inr s1 i1 show ?thesis
        by (simp add: maintenance_def Let_def toRemove_def [symmetric])
    next
      case r1: (Inr u)
      show ?thesis
      proof (cases "getExpiredContainers (registryDisk w1) (maxAgeMs (timeouts config)) now")
        case (Inl e)
        with True Inr s1 r1 i1 show ?thesis
          by (simp add: maintenance_def Let_def toRemove_def [symmetric])
      next
        case ex: (Inr expiredContainers)
        obtain r2 w2 where s2: "removeContainers api expiredContainers w1 = (r2, w2)"
          by (cases "removeContainers api expiredContainers w1") auto
        have i2: "poolInvariant w2"
          using inv_removeContainers [OF i1, of api expiredContainers] by (simp add: s2)
        have i3: "poolInvariant (snd (ensureWarmPool api config now suffixes w2))"
          using i2 by (rule inv_ensureWarmPool)
        show ?thesis
          using True Inr s1 r1 ex s2 i2 i3
          by (cases r2) (simp_all add: maintenance_def Let_def toRemove_def [symmetric])
      qed
    qed
  qed
qed

lemma inv_shutdownLoop: "poolInvariant w \<Longrightarrow> poolInvariant (shutdownLoop api names w)"
proof (induction names arbitrary: w)
  case Nil
  then show ?case by simp
next
  case (Cons n names)
  from inv_destroyContainer [OF Cons.prems, of api n]
  have "poolInvariant (snd (destroyContainer api n w))" by simp
  from Cons.IH [OF this] show ?case by simp
qed

lemma inv_shutdown:
  assumes "poolInvariant w"
  shows "poolInvariant (snd (shutdown api w))"
proof -
  have "poolInvariant (snd (stop w))"
    using assms by (simp add: stop_def)
  then have "poolInvariant (shutdownLoop api names (snd (stop w)))" for names
    by (rule inv_shutdownLoop)
  from inv_shrink [OF this, of emptyPoolState] show ?thesis
    by (simp add: shutdown_def Let_def emptyPoolState_def)
qed

lemma inv_releaseContainer:
  assumes "poolInvariant w"
  shows "poolInvariant (snd (releaseContainer api config now key returnToPool w))"
proof (cases "sessionToContainer (poolState w) key")
  case None
  with assms show ?thesis by (simp add: releaseContainer_def)
next
  case (Some name)
  define w1 where "w1 = w\<lparr>poolState := (poolState w)
      \<lparr>sessionToContainer := (sessionToContainer (poolState w))(key := None)\<rparr>\<rparr>"
  have i1: "poolInvariant w1"
    unfolding w1_def using assms by (rule inv_shrink) (simp_all add: map_forget_le)
  show ?thesis
  proof (cases "name = []")
    case True
    with Some assms show ?thesis by (simp add: releaseContainer_def)
  next
    case False
    show ?thesis
    proof (cases "returnToPool \<and> int (card (warmPool (poolState w1))) < minWarm (pool config)")
      case True
      show ?thesis
      proof (cases "unassignContainer (registryDisk w1) name now")
        case (Inl e)
        with Some False True i1 show ?thesis
          by (simp add: releaseContainer_def Let_def w1_def [symmetric])
      next
        case (Inr disk')
        define st' where "st' = (poolState w1)
            \<lparr>warmPool := insert name (warmPool (poolState w1)),
             containers :=
               (case map_of (containers (poolState w1)) name of
                  None \<Rightarrow> containers (poolState w1)
                | Some entry \<Rightarrow>
                    AList.update name (entry\<lparr>sessionKey := None, agentId := None, status := Idle\<rparr>)
                      (containers (poolState w1)))\<rparr>"
        have "consistent st' (registryEntries disk')"
          unfolding entries_unassignContainer [OF Inr]
          by (rule consistent_release [OF i1 [unfolded poolInvariant_consistent]])
            (simp_all add: st'_def)
        then have "poolInvariant (w1\<lparr>registryDisk := disk', poolState := st'\<rparr>)"
          by (simp add: poolInvariant_consistent)
        with Some False True Inr show ?thesis
          by (simp add: releaseContainer_def Let_def w1_def [symmetric] st'_def [symmetric])
      qed
    next
      case no: False
      obtain r w2 where d: "destroyContainer api name w1 = (r, w2)"
        by (cases "destroyContainer api name w1") auto
      from inv_destroyContainer [OF i1, of api name]
      have i2: "poolInvariant w2" by (simp add: d)
      have "poolInvariant (w2\<lparr>poolState := (poolState w2)
          \<lparr>containers := AList.delete name (containers (poolState w2))\<rparr>\<rparr>)"
        using i2 by (rule inv_shrink) (simp_all add: map_of_delete_le)
      with Some False no d i2 show ?thesis
        by (cases r) (auto simp: releaseContainer_def Let_def w1_def [symmetric])
    qed
  qed
qed

lemma inv_createContainerFor:
  assumes "poolInvariant w" and "p_sessionKey params \<noteq> []" and "createsFreshName api params w"
  shows "poolInvariant (snd (createContainerFor api now params w))"
proof -
  let ?opts = "\<lparr>opt_sessionKey = p_sessionKey params, opt_agentId = p_agentId params,
      opt_workspaceDir = p_workspaceDir params, opt_claudeConfig = p_claudeConfig params\<rparr>"
  obtain r d where c: "createAndStartContainer api (dockerDaemon w) ?opts = (r, d)"
    by (cases "createAndStartContainer api (dockerDaemon w) ?opts") auto
  show ?thesis
  proof (cases r)
    case (Inl e)
    with c assms(1) show ?thesis by (simp add: createContainerFor_def)
  next
    case (Inr created)
    define entry where "entry =
        \<lparr>containerId = created_id created, containerName = created_name created,
         sessionKey = Some (p_sessionKey params), agentId = p_agentId params, status = Idle,
         createdAt = now, lastHeartbeat = now, claudeSessionId = None, turnCount = 0,
         configHash = []\<rparr>"
    have n: "sessionKey entry = Some (p_sessionKey params)"
      "containerName entry = created_name created"
      by (simp_all add: entry_def)
    have fresh: "created_name created \<notin> warmPool (poolState w)"
      using assms(3) c Inr by (simp add: createsFreshName_def)
    show ?thesis
    proof (cases "updateContainerEntry (registryDisk w) entry")
      case (Inl e)
      with c Inr assms(1) show ?thesis
        by (simp add: createContainerFor_def entry_def [symmetric])
    next
      case disk: (Inr disk')
      define st' where "st' = (poolState w)
          \<lparr>containers := AList.update (created_name created) entry (containers (poolState w)),
           sessionToContainer :=
             (sessionToContainer (poolState w))(p_sessionKey params \<mapsto> created_name created)\<rparr>"
      have eq: "registryEntries disk' =
          (if created_name created \<in> containerName ` set (registryEntries (registryDisk w))
           then mutateFirst (\<lambda>e. containerName e = created_name created) (\<lambda>_. entry)
                  (registryEntries (registryDisk w))
           else registryEntries (registryDisk w) @ [entry])"
        using entries_updateContainerEntry [OF disk] by (simp only: n(2))
      have "consistent st' (registryEntries disk')"
        unfolding eq
        by (rule consistent_create [OF assms(1) [unfolded poolInvariant_consistent] n(1)
              assms(2) n(2) fresh])
          (simp_all add: st'_def)
      then show ?thesis
        using c Inr disk
        by (simp add: createContainerFor_def entry_def [symmetric] st'_def [symmetric]
            poolInvariant_consistent)
    qed
  qed
qed

lemma inv_assignWarmContainer:
  assumes "poolInvariant w" and "p_sessionKey params \<noteq> []" and "createsFreshName api params w"
  shows "poolInvariant (snd (assignWarmContainer api now params w))"
proof (cases "listWarmContainers (registryDisk w)")
  case (Inl e)
  with assms(1) show ?thesis by (simp add: assignWarmContainer_def)
next
  case (Inr warms)
  show ?thesis
  proof (cases warms)
    case Nil
    with Inr inv_createContainerFor [OF assms] show ?thesis
      by (simp add: assignWarmContainer_def)
  next
    case (Cons warm rest)
    show ?thesis
    proof (cases "assignContainerToSession (registryDisk w) (containerName warm)
                    (p_sessionKey params) (p_agentId params) now")
      case (Inl e)
      with Inr Cons assms(1) show ?thesis by (simp add: assignWarmContainer_def)
    next
      case disk: (Inr disk')
      define st' where "st' = (poolState w)
          \<lparr>containers :=
             AList.update (containerName warm)
               (warm\<lparr>sessionKey := Some (p_sessionKey params), agentId := p_agentId params\<rparr>)
               (containers (poolState w)),
           sessionToContainer :=
             (sessionToContainer (poolState w))(p_sessionKey params \<mapsto> containerName warm),
           warmPool := warmPool (poolState w) - {containerName warm}\<rparr>"
      have "consistent st' (registryEntries disk')"
        unfolding entries_assignContainerToSession [OF disk]
        by (rule consistent_assign [OF assms(1) [unfolded poolInvariant_consistent] assms(2)])
          (simp_all add: st'_def)
      then show ?thesis
        using Inr Cons disk
        by (simp add: assignWarmContainer_def st'_def [symmetric] poolInvariant_consistent)
    qed
  qed
qed

lemma inv_checkLimits:
  assumes "poolInvariant w" and "p_sessionKey params \<noteq> []" and "createsFreshName api params w"
  shows "poolInvariant (snd (checkLimits api config now params w))"
  using assms(1) inv_assignWarmContainer [OF assms]
  by (auto simp: checkLimits_def split: sum.splits)

lemma inv_adoptRegistered:
  assumes "poolInvariant w" and "p_sessionKey params \<noteq> []" and "createsFreshName api params w"
  shows "poolInvariant (snd (adoptRegistered api config now params w))"
proof (cases "getContainerBySessionKey (registryDisk w) (p_sessionKey params)")
  case (Inl e)
  with assms(1) show ?thesis by (simp add: adoptRegistered_def)
next
  case (Inr found)
  show ?thesis
  proof (cases found)
    case None
    with Inr inv_checkLimits [OF assms] show ?thesis by (simp add: adoptRegistered_def)
  next
    case (Some registryEntry)
    from entries_getContainerBySessionKey [OF Inr [unfolded Some]]
    have e: "registryEntry \<in> set (registryEntries (registryDisk w))"
      "sessionKey registryEntry = Some (p_sessionKey params)"
      by simp_all
    define st' where "st' = (poolState w)
        \<lparr>containers :=
           AList.update (containerName registryEntry) registryEntry (containers (poolState w)),
         sessionToContainer :=
           (sessionToContainer (poolState w))
             (p_sessionKey params \<mapsto> containerName registryEntry)\<rparr>"
    have "consistent st' (registryEntries (registryDisk w))"
      by (rule consistent_adopt [OF assms(1) [unfolded poolInvariant_consistent] e])
        (simp_all add: st'_def)
    then have "poolInvariant (w\<lparr>poolState := st'\<rparr>)"
      by (simp add: poolInvariant_consistent)
    with Inr Some assms(1) inv_checkLimits [OF assms] show ?thesis
      by (auto simp: adoptRegistered_def st'_def [symmetric] split: sum.splits)
  qed
qed

lemma inv_getContainer:
  assumes "poolInvariant w" and "p_sessionKey params \<noteq> []" and "createsFreshName api params w"
  shows "poolInvariant (snd (getContainer api config now params w))"
  using assms(1) inv_adoptRegistered [OF assms]
  by (auto simp: getContainer_def split: option.splits prod.splits)

lemma inv_reachable:
  "reachable api config w0 w \<Longrightarrow> poolInvariant w0 \<Longrightarrow> poolInvariant w"
proof (induction rule: reachable.induct)
  case Init
  then show ?case by simp
next
  case (Start w now suffixes)
  then show ?case by (simp add: inv_start)
next
  case (GetContainer w params now)
  then show ?case by (simp add: inv_getContainer)
next
  case (ReleaseContainer w now key returnToPool)
  then show ?case by (simp add: inv_releaseContainer)
next
  case (EnsureWarmPool w now suffixes)
  then show ?case by (simp add: inv_ensureWarmPool)
next
  case (CheckHealth w now)
  then show ?case by (simp add: inv_checkHealth)
next
  case (Maintenance w now suffixes)
  then show ?case by (simp add: inv_maintenance)
next
  case (Stop w)
  then show ?case by (simp add: stop_def)
next
  case (Shutdown w)
  then show ?case by (simp add: inv_shutdown)
next
  case (DockerChanges w d)
  then show ?case by simp
qed

text \<open>
  Claim C2 (as amended). Start from a pool manager with empty maps and a registry whose
  names are unique and whose session keys are not empty. In every world reached by the
  operations (start with its syncState, getContainer, releaseContainer, the warm-pool
  top-up, the health tick, the maintenance tick, stop, shutdown), run one at a time, no
  container of the in-memory map is both mapped from its session key and a member of
  the warm pool, provided session keys are not empty and Docker gives a new container
  no name that the warm pool still holds.
\<close>

theorem never_mapped_and_warm:
  assumes "reachable api config w0 w"
    and "poolState w0 = emptyPoolState"
    and "wellFormedRegistry (registryEntries (registryDisk w0))"
  shows "neverBoth (poolState w)"
proof -
  have "poolInvariant w0"
    using assms(2,3)
    by (simp add: poolInvariant_def neverBoth_def warmUnassigned_iff emptyPoolState_def)
  from inv_reachable [OF assms(1) this] show ?thesis
    by (simp add: poolInvariant_def)
qed

lemma start_freshWorld:
  "snd (start healthyDocker DEFAULT_DOCKER_CC_CONFIG 1000 (\<lambda>i. ''1000-k3v9qa'') freshWorld) =
     freshWorld\<lparr>managerRunning := True\<rparr>"
  by (simp add: start_def syncState_def syncWithDocker_def listContainerEntries_def
      readRegistry_def ensureWarmPool_def healthyDocker_def freshWorld_def emptyPoolState_def
      DEFAULT_DOCKER_CC_CONFIG_def Let_def)

lemma getContainer_startedWorld:
  "getContainer healthyDocker DEFAULT_DOCKER_CC_CONFIG 2000 s1Params
     (freshWorld\<lparr>managerRunning := True\<rparr>) =
   (Inr \<lparr>assignedName = ''clawdbot-cc-s1-e5d'', assignedId = ''4f2a90c1'', isNew = True,
         wasWarm = False\<rparr>, assignedWorld)"
  by (simp add: getContainer_def adoptRegistered_def checkLimits_def assignWarmContainer_def
      createContainerFor_def getContainerBySessionKey_def listContainersByAgent_def
      listContainerEntries_def listWarmContainers_def updateContainerEntry_def
      readRegistry_def writeRegistry_def REGISTRY_VERSION_def healthyDocker_def freshWorld_def
      emptyPoolState_def s1Params_def assignedWorld_def assignedState_def assignedDisk_def
      assignedEntry_def DEFAULT_DOCKER_CC_CONFIG_def Let_def)

lemma reachable_assignedWorld:
  "reachable healthyDocker DEFAULT_DOCKER_CC_CONFIG freshWorld assignedWorld"
proof -
  have "reachable healthyDocker DEFAULT_DOCKER_CC_CONFIG freshWorld
      (freshWorld\<lparr>managerRunning := True\<rparr>)"
    using Start [OF Init, of healthyDocker DEFAULT_DOCKER_CC_CONFIG freshWorld 1000
        "\<lambda>i. ''1000-k3v9qa''"]
    by (simp only: start_freshWorld)
  moreover have "p_sessionKey s1Params \<noteq> []"
    by (simp add: s1Params_def)
  moreover have "createsFreshName healthyDocker s1Params (freshWorld\<lparr>managerRunning := True\<rparr>)"
    by (simp add: createsFreshName_def healthyDocker_def freshWorld_def emptyPoolState_def)
  ultimately have "reachable healthyDocker DEFAULT_DOCKER_CC_CONFIG freshWorld
      (snd (getContainer healthyDocker DEFAULT_DOCKER_CC_CONFIG 2000 s1Params
              (freshWorld\<lparr>managerRunning := True\<rparr>)))"
    by (rule GetContainer)
  then show ?thesis
    by (simp only: getContainer_startedWorld snd_conv)
qed

lemma checkHealth_assignedWorld:
  "snd (checkHealth healthyDocker DEFAULT_DOCKER_CC_CONFIG 62001 assignedWorld) =
     assignedWorld
       \<lparr>registryDisk :=
          \<lparr>registryFile =
             Stored \<lparr>version = 1,
                     entries = [assignedEntry\<lparr>status := Failed, lastHeartbeat := 62001\<rparr>]\<rparr>,
           writable = True\<rparr>,
        poolState := assignedState\<lparr>sessionToContainer := Map.empty\<rparr>\<rparr>"
  by (simp add: checkHealth_def getStaleContainers_def updateContainerStatus_def
      readRegistry_def writeRegistry_def REGISTRY_VERSION_def healthyDocker_def
      assignedWorld_def assignedState_def assignedDisk_def assignedEntry_def
      DEFAULT_DOCKER_CC_CONFIG_def Let_def)

theorem never_mapped_and_warm_witness:
  "reachable healthyDocker DEFAULT_DOCKER_CC_CONFIG freshWorld
     (snd (checkHealth healthyDocker DEFAULT_DOCKER_CC_CONFIG 62001 assignedWorld)) \<and>
   poolState freshWorld = emptyPoolState \<and>
   wellFormedRegistry (registryEntries (registryDisk freshWorld)) \<and>
   neverBoth (poolState (snd (checkHealth healthyDocker DEFAULT_DOCKER_CC_CONFIG 62001
     assignedWorld)))"
proof -
  have h1: "reachable healthyDocker DEFAULT_DOCKER_CC_CONFIG freshWorld
     (snd (checkHealth healthyDocker DEFAULT_DOCKER_CC_CONFIG 62001 assignedWorld))"
    by (rule CheckHealth [OF reachable_assignedWorld])
  have h2: "poolState freshWorld = emptyPoolState"
    by (simp add: freshWorld_def)
  have h3: "wellFormedRegistry (registryEntries (registryDisk freshWorld))"
    by (simp add: wellFormedRegistry_def registryEntries_def readRegistry_def freshWorld_def)
  show ?thesis
    using h1 h2 h3 never_mapped_and_warm [OF h1 h2 h3] by simp
qed

text \<open>
  Claim C2 as stated fails at the health tick. After start and one \<open>getContainer\<close> the
  container of session \<open>s1\<close> is mapped from its session key and not warm. Sixty seconds
  later its heartbeat is stale while Docker still runs it: \<open>checkHealth\<close> marks it failed
  in the registry and severs the session mapping, and the container stays in the
  in-memory map, neither mapped from its session key nor in the warm pool.
\<close>

theorem checkHealth_counterexample:
  "reachable healthyDocker DEFAULT_DOCKER_CC_CONFIG freshWorld assignedWorld \<and>
   exactlyOne (poolState assignedWorld) \<and>
   map_of (containers (poolState (snd (checkHealth healthyDocker DEFAULT_DOCKER_CC_CONFIG 62001
     assignedWorld)))) ''clawdbot-cc-s1-e5d'' = Some assignedEntry \<and>
   \<not> mappedFromKey (poolState (snd (checkHealth healthyDocker DEFAULT_DOCKER_CC_CONFIG 62001
     assignedWorld))) ''clawdbot-cc-s1-e5d'' \<and>
   ''clawdbot-cc-s1-e5d'' \<notin> warmPool (poolState (snd (checkHealth healthyDocker
     DEFAULT_DOCKER_CC_CONFIG 62001 assignedWorld))) \<and>
   \<not> exactlyOne (poolState (snd (checkHealth healthyDocker DEFAULT_DOCKER_CC_CONFIG 62001
     assignedWorld)))"
  by (simp add: reachable_assignedWorld checkHealth_assignedWorld)
    (simp add: exactlyOne_def mappedFromKey_def assignedWorld_def assignedState_def
      assignedEntry_def)

subsection \<open>The two provisos of the reachable worlds\<close>

text \<open>
  Both provisos of \<open>reachable\<close> are needed. With the empty session key: the container
  created for it is registered with the empty key, which \<open>syncState\<close> reads as "no
  session" and puts into the warm pool at the next start; the next request for the empty
  key finds it in the registry by that key and maps it as well.
\<close>

lemma empty_session_key_mapped_and_warm:
  "(let w1 = snd (start emptyKeyDocker DEFAULT_DOCKER_CC_CONFIG 1000 (\<lambda>i. ''1000-k3v9qa'') freshWorld);
        w2 = snd (getContainer emptyKeyDocker DEFAULT_DOCKER_CC_CONFIG 2000 emptyKeyParams w1);
        w3 = snd (stop w2);
        w4 = snd (start emptyKeyDocker DEFAULT_DOCKER_CC_CONFIG 3000 (\<lambda>i. ''3000-k3v9qa'') w3);
        w5 = snd (getContainer emptyKeyDocker DEFAULT_DOCKER_CC_CONFIG 4000 emptyKeyParams w4)
    in mappedFromKey (poolState w5) ''clawdbot-cc--0'' \<and>
       ''clawdbot-cc--0'' \<in> warmPool (poolState w5) \<and> \<not> neverBoth (poolState w5))"
  by (simp add: Let_def start_def stop_def syncState_def ensureWarmPool_def getContainer_def
      adoptRegistered_def checkLimits_def assignWarmContainer_def createContainerFor_def
      getContainerBySessionKey_def listContainersByAgent_def listContainerEntries_def
      listWarmContainers_def updateContainerEntry_def syncWithDocker_def readRegistry_def
      writeRegistry_def REGISTRY_VERSION_def emptyKeyDocker_def healthyDocker_def
      freshWorld_def emptyPoolState_def emptyKeyParams_def DEFAULT_DOCKER_CC_CONFIG_def
      mappedFromKey_def neverBoth_def)

text \<open>
  With a name the warm pool still holds: the health tick marks a warm container whose
  heart beat is stale as failed and leaves its name in the warm pool; a daemon that
  gives the next container the same name makes it mapped and warm.
\<close>

lemma reused_warm_name_mapped_and_warm:
  "(let w1 = snd (start healthyDocker oneWarmConfig 1000 (\<lambda>i. ''1000-k3v9qa'') freshWorld);
        w2 = snd (checkHealth healthyDocker oneWarmConfig 62001 w1);
        w3 = snd (getContainer healthyDocker oneWarmConfig 70000 s1Params w2)
    in \<not> createsFreshName healthyDocker s1Params w2 \<and>
       mappedFromKey (poolState w3) ''clawdbot-cc-s1-e5d'' \<and>
       ''clawdbot-cc-s1-e5d'' \<in> warmPool (poolState w3) \<and> \<not> neverBoth (poolState w3))"
  by (simp add: Let_def start_def syncState_def ensureWarmPool_def createWarmContainer_def
      checkHealth_def getContainer_def adoptRegistered_def checkLimits_def
      assignWarmContainer_def createContainerFor_def createsFreshName_def
      getContainerBySessionKey_def listContainersByAgent_def listContainerEntries_def
      listWarmContainers_def updateContainerEntry_def updateContainerStatus_def
      getStaleContainers_def syncWithDocker_def readRegistry_def writeRegistry_def
      REGISTRY_VERSION_def healthyDocker_def freshWorld_def emptyPoolState_def s1Params_def
      oneWarmConfig_def DEFAULT_DOCKER_CC_CONFIG_def mappedFromKey_def neverBoth_def)

end
